theory Spec2Isabelle
  imports Main "HOL-Library.Word"
begin

unbundle bit_operations_syntax

section \<open>Constants and types of the LICD library\<close>

type_synonym u8 = "8 word"
type_synonym u32 = "32 word"
type_synonym u64 = "64 word"

text \<open>The macros of \<^verbatim>\<open>licd.h\<close> (the same values are in \<^verbatim>\<open>licd_globals.h\<close> and
  \<^verbatim>\<open>licd_commands.h\<close>).\<close>

definition LICD_LISTENER_ADDRESS :: u8 where
  "LICD_LISTENER_ADDRESS = 0x01"

definition LICD_ADDRESS_SPACE :: u8 where
  "LICD_ADDRESS_SPACE = 0x02"

definition LICD_DEVICE_COUNT :: u8 where
  "LICD_DEVICE_COUNT = 126"

definition LICD_COMMAND_UUID :: u8 where
  "LICD_COMMAND_UUID = 0x01"

definition LICD_COMMAND_ASSIGN :: u8 where
  "LICD_COMMAND_ASSIGN = 0x02"

definition LICD_COMMAND_RETRY :: u8 where
  "LICD_COMMAND_RETRY = 0x03"

text \<open>\<^verbatim>\<open>struct LicDeviceHeader { uint32_t uuid = 0; uint32_t flags = 0; }\<close>\<close>

record LicDeviceHeader =
  uuid :: u32
  flags :: u32

definition LicDeviceHeader_new :: LicDeviceHeader where
  "LicDeviceHeader_new = \<lparr>uuid = 0, flags = 0\<rparr>"

definition sizeof_LicDeviceHeader :: nat where
  "sizeof_LicDeviceHeader = 8"

text \<open>The object representation that \<^verbatim>\<open>reinterpret_cast<uint8_t*>\<close> exposes: two 32-bit
  fields, four bytes each, least significant byte first (the byte order of the AVR and
  ARM boards the library targets).\<close>

definition u32_bytes :: "u32 \<Rightarrow> u8 list" where
  "u32_bytes x = [ucast x, ucast (drop_bit 8 x), ucast (drop_bit 16 x), ucast (drop_bit 24 x)]"

definition u32_of_bytes :: "u8 list \<Rightarrow> u32" where
  "u32_of_bytes bs =
     ucast (bs ! 0) OR push_bit 8 (ucast (bs ! 1)) OR push_bit 16 (ucast (bs ! 2))
       OR push_bit 24 (ucast (bs ! 3))"

definition header_bytes :: "LicDeviceHeader \<Rightarrow> u8 list" where
  "header_bytes h = u32_bytes (uuid h) @ u32_bytes (flags h)"

definition header_of_bytes :: "u8 list \<Rightarrow> LicDeviceHeader" where
  "header_of_bytes bs = \<lparr>uuid = u32_of_bytes (take 4 bs), flags = u32_of_bytes (take 4 (drop 4 bs))\<rparr>"

section \<open>The board as the master sees it\<close>

text \<open>What the master puts on the bus, in order. \<^verbatim>\<open>delay\<close> is recorded in the same
  trace, since the protocol's pauses sit between its transactions.\<close>

datatype bus_op =
    Begin_master
  | BeginTransmission u8
  | Write u8
  | EndTransmission
  | RequestFrom u8 nat
  | Delay u32

text \<open>Modelled from the spec: the bus transport (the Arduino \<^verbatim>\<open>Wire\<close> object), the
  clock \<^verbatim>\<open>millis\<close>, \<^verbatim>\<open>delay\<close> and \<^verbatim>\<open>Serial\<close> are external collaborators (section 4.1).
  The record holds the receive buffer, what was sent, what was printed, and the
  environment's answers: \<open>end_results k\<close> is what the \<open>k\<close>-th \<^verbatim>\<open>endTransmission\<close>
  returns, \<open>replies k\<close> the bytes the \<open>k\<close>-th \<^verbatim>\<open>requestFrom\<close> leaves in the receive
  buffer, \<open>clock k\<close> the value of the \<open>k\<close>-th call of \<^verbatim>\<open>millis\<close>. The environment is
  free: any result, any number of bytes, any clock. The receive buffer changes only by a
  request and by reading.\<close>

record board =
  rx :: "u8 list"
  sent :: "bus_op list"
  serial :: "string list"
  end_results :: "nat \<Rightarrow> u8"
  n_end :: nat
  replies :: "nat \<Rightarrow> u8 list"
  n_req :: nat
  clock :: "nat \<Rightarrow> u32"
  n_millis :: nat

definition Wire_begin :: "board \<Rightarrow> board" where
  "Wire_begin b = b\<lparr>sent := sent b @ [Begin_master]\<rparr>"

definition Wire_beginTransmission :: "u8 \<Rightarrow> board \<Rightarrow> board" where
  "Wire_beginTransmission a b = b\<lparr>sent := sent b @ [BeginTransmission a]\<rparr>"

definition Wire_write :: "u8 \<Rightarrow> board \<Rightarrow> board" where
  "Wire_write x b = b\<lparr>sent := sent b @ [Write x]\<rparr>"

definition Wire_endTransmission :: "board \<Rightarrow> u8 \<times> board" where
  "Wire_endTransmission b =
     (end_results b (n_end b), b\<lparr>sent := sent b @ [EndTransmission], n_end := Suc (n_end b)\<rparr>)"

definition Wire_requestFrom :: "u8 \<Rightarrow> nat \<Rightarrow> board \<Rightarrow> board" where
  "Wire_requestFrom a n b =
     b\<lparr>rx := replies b (n_req b), sent := sent b @ [RequestFrom a n], n_req := Suc (n_req b)\<rparr>"

definition Wire_available :: "board \<Rightarrow> nat" where
  "Wire_available b = length (rx b)"

text \<open>\<^verbatim>\<open>Wire.read()\<close> returns an \<^verbatim>\<open>int\<close>: the next byte, or -1 when the buffer is empty.\<close>

definition Wire_read :: "board \<Rightarrow> int \<times> board" where
  "Wire_read b = (case rx b of [] \<Rightarrow> (- 1, b) | x # xs \<Rightarrow> (uint x, b\<lparr>rx := xs\<rparr>))"

definition delay :: "u32 \<Rightarrow> board \<Rightarrow> board" where
  "delay ms b = b\<lparr>sent := sent b @ [Delay ms]\<rparr>"

definition millis :: "board \<Rightarrow> u32 \<times> board" where
  "millis b = (clock b (n_millis b), b\<lparr>n_millis := Suc (n_millis b)\<rparr>)"

definition Serial_print :: "string \<Rightarrow> board \<Rightarrow> board" where
  "Serial_print s b = b\<lparr>serial := serial b @ [s]\<rparr>"

text \<open>A board at power-on, with the environment's script: nothing received, sent or
  printed, no call made yet.\<close>

definition board_init :: "(nat \<Rightarrow> u8) \<Rightarrow> (nat \<Rightarrow> u8 list) \<Rightarrow> (nat \<Rightarrow> u32) \<Rightarrow> board" where
  "board_init results bytes ticks =
     \<lparr>rx = [], sent = [], serial = [], end_results = results, n_end = 0,
      replies = bytes, n_req = 0, clock = ticks, n_millis = 0\<rparr>"

section \<open>LicDeviceManager\<close>

record LicDeviceManager =
  m_retry_count :: u32
  m_retry_delay :: u32
  m_wait_delay :: u32
  m_devices :: "LicDeviceHeader list"

text \<open>The constructor: \<^verbatim>\<open>m_devices{ }\<close> value-initialises the 126 slots.\<close>

definition LicDeviceManager_new :: "u32 \<Rightarrow> u32 \<Rightarrow> u32 \<Rightarrow> board \<Rightarrow> LicDeviceManager \<times> board" where
  "LicDeviceManager_new retry_count retry_delay wait_delay b =
     (\<lparr>m_retry_count = retry_count, m_retry_delay = retry_delay, m_wait_delay = wait_delay,
       m_devices = replicate (unat LICD_DEVICE_COUNT) LicDeviceHeader_new\<rparr>,
      Wire_begin b)"

subsection \<open>DoPollDevice\<close>

text \<open>One pass through the body of the \<^verbatim>\<open>for\<close> loop: a transaction to the listener
  address carrying the UUID command, then the pause. It yields the new value of
  \<^verbatim>\<open>error\<close>.\<close>

definition probe_once :: "u32 \<Rightarrow> board \<Rightarrow> u32 \<times> board" where
  "probe_once retry_delay b =
     (let b1 = Wire_beginTransmission LICD_LISTENER_ADDRESS b;
          b2 = Wire_write LICD_COMMAND_UUID b1;
          r = Wire_endTransmission b2
      in (ucast (fst r), delay retry_delay (snd r)))"

function DoPollDevice_loop :: "LicDeviceManager \<Rightarrow> u32 \<Rightarrow> u32 \<Rightarrow> board \<Rightarrow> u32 \<times> board" where
  "DoPollDevice_loop m error retry_count b =
     (if error > 0 \<and> retry_count < m_retry_count m
      then DoPollDevice_loop m (fst (probe_once (m_retry_delay m) b)) (retry_count + 1)
             (snd (probe_once (m_retry_delay m) b))
      else (error, b))"
  by pat_completeness auto
termination
proof (relation "measure (\<lambda>(m, error, retry_count, b). unat (m_retry_count m) - unat retry_count)")
  show "wf (measure (\<lambda>(m, error, retry_count, b). unat (m_retry_count m) - unat retry_count))"
    by simp
next
  fix m :: LicDeviceManager and error retry_count :: u32 and b :: board
  assume "0 < error \<and> retry_count < m_retry_count m"
  then have lt: "retry_count < m_retry_count m" by simp
  then have below: "unat retry_count < unat (m_retry_count m)"
    by (simp add: word_less_nat_alt)
  have "unat (m_retry_count m) < 2 ^ 32"
    using unsigned_less [of "m_retry_count m"] by simp
  with below have "unat retry_count + unat (1 :: u32) < 2 ^ LENGTH(32)"
    by simp
  then have "unat (retry_count + 1) = unat retry_count + unat (1 :: u32)"
    by (simp only: unat_add_lem)
  then have "unat (retry_count + 1) = Suc (unat retry_count)"
    by simp
  with below show
    "((m, fst (probe_once (m_retry_delay m) b), retry_count + 1, snd (probe_once (m_retry_delay m) b)),
      (m, error, retry_count, b))
     \<in> measure (\<lambda>(m, error, retry_count, b). unat (m_retry_count m) - unat retry_count)"
    by simp
qed

declare DoPollDevice_loop.simps [simp del]

definition DoPollDevice_report :: "u32 \<Rightarrow> board \<Rightarrow> board" where
  "DoPollDevice_report error b =
     (if error = 1 then Serial_print ''[ERR] Wire : Data too long to fit in transmit buffer.'' b
      else if error = 2 then Serial_print ''[ERR] Wire : Received NACK on transmit of address.'' b
      else if error = 3 then Serial_print ''[ERR] Wire : Received NACK on transmit of data.'' b
      else if error = 4 then Serial_print ''[ERR] Wire : Undefined error behavior.'' b
      else b)"

definition DoPollDevice :: "LicDeviceManager \<Rightarrow> board \<Rightarrow> bool \<times> board" where
  "DoPollDevice m b =
     (let r = DoPollDevice_loop m 5 0 b
      in (fst r = 0, DoPollDevice_report (fst r) (snd r)))"

subsection \<open>WireHelper\<close>

text \<open>\<^verbatim>\<open>WireHelper::wait<T>\<close> of \<^verbatim>\<open>licd.h\<close>: it returns \<^verbatim>\<open>true\<close> when it timed out. The
  loop polls the receive buffer and the clock; it has no other exit, so a clock that
  never passes the deadline keeps it spinning (the value \<open>None\<close>).\<close>

definition wait_message :: string where
  "wait_message =
     ''[ERR] Wire : Waiting for data as timeout or not enough data as been available.''"

partial_function (option) WireHelper_wait_loop ::
  "nat \<Rightarrow> u64 \<Rightarrow> u64 \<Rightarrow> board \<Rightarrow> (bool \<times> board) option" where
  "WireHelper_wait_loop sizeof_T start_time timeout b =
     (if Wire_available b < sizeof_T
      then (if ucast (fst (millis b)) - start_time > timeout
            then Some (True, Serial_print wait_message (snd (millis b)))
            else WireHelper_wait_loop sizeof_T start_time timeout (snd (millis b)))
      else Some (False, b))"

declare WireHelper_wait_loop.simps [code]

definition WireHelper_wait :: "nat \<Rightarrow> u64 \<Rightarrow> board \<Rightarrow> (bool \<times> board) option" where
  "WireHelper_wait sizeof_T timeout b =
     WireHelper_wait_loop sizeof_T (ucast (fst (millis b))) timeout (snd (millis b))"

text \<open>The copy loop of \<^verbatim>\<open>WireHelper::read<T>\<close>; \<open>bytes\<close> is the memory behind
  \<^verbatim>\<open>byte_ptr\<close>.\<close>

function WireHelper_read_loop :: "nat \<Rightarrow> u8 list \<Rightarrow> nat \<Rightarrow> board \<Rightarrow> u8 list \<times> nat \<times> board" where
  "WireHelper_read_loop data_size bytes data_offset b =
     (if Wire_available b \<noteq> 0 \<and> data_offset < data_size
      then WireHelper_read_loop data_size
             (bytes[data_offset := word_of_int (fst (Wire_read b))]) (Suc data_offset)
             (snd (Wire_read b))
      else (bytes, data_offset, b))"
  by pat_completeness auto
termination
  by (relation "measure (\<lambda>(data_size, bytes, data_offset, b). data_size - data_offset)") auto

declare WireHelper_read_loop.simps [simp del]

text \<open>\<^verbatim>\<open>WireHelper::read<T>( data, count, timeout )\<close>: the result is the returned flag,
  the memory behind \<^verbatim>\<open>data\<close> and the board.\<close>

definition WireHelper_read ::
  "nat \<Rightarrow> u8 list \<Rightarrow> u32 \<Rightarrow> u64 \<Rightarrow> board \<Rightarrow> (bool \<times> u8 list \<times> board) option" where
  "WireHelper_read sizeof_T data count timeout b =
     (if count = 0 then Some (False, data, b)
      else case WireHelper_wait sizeof_T timeout b of
             None \<Rightarrow> None
           | Some w \<Rightarrow>
               if fst w then Some (False, data, snd w)
               else (let data_size = sizeof_T * unat count;
                         r = WireHelper_read_loop data_size data 0 (snd w)
                     in Some (fst (snd r) = data_size, fst r, snd (snd r))))"

text \<open>The same helper as \<^verbatim>\<open>src/src/licd_wire_helper.h\<close> writes it: there \<^verbatim>\<open>wait\<close> returns
  \<^verbatim>\<open>true\<close> when the data is available and \<^verbatim>\<open>false\<close> when it timed out, and \<^verbatim>\<open>read\<close>
  gives up on \<^verbatim>\<open>!wait( timeout )\<close>.\<close>

partial_function (option) WireHelper_wait_loop_v2 ::
  "nat \<Rightarrow> u64 \<Rightarrow> u64 \<Rightarrow> board \<Rightarrow> (bool \<times> board) option" where
  "WireHelper_wait_loop_v2 sizeof_T start_time timeout b =
     (if Wire_available b < sizeof_T
      then (if ucast (fst (millis b)) - start_time > timeout
            then Some (False, Serial_print wait_message (snd (millis b)))
            else WireHelper_wait_loop_v2 sizeof_T start_time timeout (snd (millis b)))
      else Some (True, b))"

declare WireHelper_wait_loop_v2.simps [code]

definition WireHelper_wait_v2 :: "nat \<Rightarrow> u64 \<Rightarrow> board \<Rightarrow> (bool \<times> board) option" where
  "WireHelper_wait_v2 sizeof_T timeout b =
     WireHelper_wait_loop_v2 sizeof_T (ucast (fst (millis b))) timeout (snd (millis b))"

definition WireHelper_read_v2 ::
  "nat \<Rightarrow> u8 list \<Rightarrow> u32 \<Rightarrow> u64 \<Rightarrow> board \<Rightarrow> (bool \<times> u8 list \<times> board) option" where
  "WireHelper_read_v2 sizeof_T data count timeout b =
     (if count = 0 then Some (False, data, b)
      else case WireHelper_wait_v2 sizeof_T timeout b of
             None \<Rightarrow> None
           | Some w \<Rightarrow>
               if \<not> fst w then Some (False, data, snd w)
               else (let data_size = sizeof_T * unat count;
                         r = WireHelper_read_loop data_size data 0 (snd w)
                     in Some (fst (snd r) = data_size, fst r, snd (snd r))))"

subsection \<open>RegisterDevice and PollDevice\<close>

text \<open>The \<^verbatim>\<open>while\<close> loop of \<^verbatim>\<open>RegisterDevice\<close>. Its body never changes
  \<^verbatim>\<open>address_offset\<close>, and \<^verbatim>\<open>continue\<close> goes back to the loop test with the same
  values.\<close>

partial_function (option) RegisterDevice_loop ::
  "LicDeviceHeader \<Rightarrow> LicDeviceManager \<Rightarrow> u8 \<Rightarrow> u8 \<Rightarrow> (u8 \<times> LicDeviceManager) option" where
  "RegisterDevice_loop header m new_address address_offset =
     (if new_address = LICD_LISTENER_ADDRESS \<and> address_offset < LICD_DEVICE_COUNT
      then (if uuid (m_devices m ! unat address_offset) > 0
            then RegisterDevice_loop header m new_address address_offset
            else RegisterDevice_loop header
                   (m\<lparr>m_devices := (m_devices m)[unat address_offset := header]\<rparr>)
                   (LICD_ADDRESS_SPACE + address_offset) address_offset)
      else Some (new_address, m))"

declare RegisterDevice_loop.simps [code]

text \<open>The three statements of \<^verbatim>\<open>RegisterDevice\<close> before the read: pause, request
  \<^verbatim>\<open>sizeof( LicDeviceHeader )\<close> bytes from the listener address, pause.\<close>

definition request_header :: "LicDeviceManager \<Rightarrow> board \<Rightarrow> board" where
  "request_header m b =
     delay (m_wait_delay m)
       (Wire_requestFrom LICD_LISTENER_ADDRESS sizeof_LicDeviceHeader (delay (m_wait_delay m) b))"

definition read_message :: string where
  "read_message = ''[ERR] Wire : Data too short or too long to fit the transmit buffer.''"

definition RegisterDevice :: "LicDeviceManager \<Rightarrow> board \<Rightarrow> (u8 \<times> LicDeviceManager \<times> board) option" where
  "RegisterDevice m b =
     (let header = LicDeviceHeader_new;
          new_address = LICD_LISTENER_ADDRESS
      in case WireHelper_read sizeof_LicDeviceHeader (header_bytes header) 1 150
                (request_header m b) of
           None \<Rightarrow> None
         | Some r \<Rightarrow>
             if fst r
             then (case RegisterDevice_loop (header_of_bytes (fst (snd r))) m new_address 0 of
                     None \<Rightarrow> None
                   | Some a \<Rightarrow> Some (fst a, snd a, snd (snd r)))
             else Some (new_address, m, Serial_print read_message (snd (snd r))))"

text \<open>The final transaction of \<^verbatim>\<open>PollDevice\<close>; the value of \<^verbatim>\<open>endTransmission\<close> is
  dropped.\<close>

definition respond :: "u8 \<Rightarrow> board \<Rightarrow> board" where
  "respond new_address b =
     (let b1 = Wire_beginTransmission LICD_LISTENER_ADDRESS b;
          b2 = (if new_address > LICD_LISTENER_ADDRESS
                then Wire_write new_address (Wire_write LICD_COMMAND_ASSIGN b1)
                else Wire_write LICD_COMMAND_RETRY b1)
      in snd (Wire_endTransmission b2))"

definition PollDevice :: "LicDeviceManager \<Rightarrow> board \<Rightarrow> (LicDeviceManager \<times> board) option" where
  "PollDevice m b =
     (let p = DoPollDevice m b
      in if \<not> fst p then Some (m, snd p)
         else case RegisterDevice m (snd p) of
                None \<Rightarrow> None
              | Some r \<Rightarrow> Some (fst (snd r), respond (fst r) (snd (snd r))))"

section \<open>LicDevice\<close>

text \<open>The handlers an application hands to the constructor are plain function pointers
  (\<^verbatim>\<open>void (*)( int )\<close> and \<^verbatim>\<open>void (*)( void )\<close>); \<open>None\<close> is \<^verbatim>\<open>nullptr\<close>. They are
  application code: here they act on the transport's two buffers (received bytes, bytes
  queued for the master), which is all an application exchanges over the bus. They cannot
  name the private \<^verbatim>\<open>LicDevice::ReceiveAddress\<close>.\<close>

type_synonym wire_buffers = "u8 list \<times> u8 list"
type_synonym LicDeviceReceive = "(int \<Rightarrow> wire_buffers \<Rightarrow> wire_buffers) option"
type_synonym LicDeviceRequest = "(wire_buffers \<Rightarrow> wire_buffers) option"

text \<open>What is registered with \<^verbatim>\<open>Wire.onReceive\<close>: the library's own
  \<^verbatim>\<open>ReceiveAddress\<close>, or a handler of the application.\<close>

datatype receive_handler =
    ReceiveAddress_handler
  | User_receive LicDeviceReceive

text \<open>The three fields of \<^verbatim>\<open>LicDevice\<close>, followed by the slave's side of the transport
  (modelled from the spec, section 4.1): the address given to \<^verbatim>\<open>Wire.begin\<close>, the two
  registered handlers, the receive buffer, the bytes written for the master, and the
  pauses taken.\<close>

record LicDevice =
  m_address :: u8
  m_receive :: LicDeviceReceive
  m_request :: LicDeviceRequest
  wire_address :: u8
  on_receive :: receive_handler
  on_request :: LicDeviceRequest
  dev_rx :: "u8 list"
  dev_tx :: "u8 list"
  dev_delays :: "u32 list"

definition dev_available :: "LicDevice \<Rightarrow> nat" where
  "dev_available d = length (dev_rx d)"

definition dev_read :: "LicDevice \<Rightarrow> int \<times> LicDevice" where
  "dev_read d = (case dev_rx d of [] \<Rightarrow> (- 1, d) | x # xs \<Rightarrow> (uint x, d\<lparr>dev_rx := xs\<rparr>))"

definition dev_write :: "u8 \<Rightarrow> LicDevice \<Rightarrow> LicDevice" where
  "dev_write x d = d\<lparr>dev_tx := dev_tx d @ [x]\<rparr>"

definition dev_delay :: "u32 \<Rightarrow> LicDevice \<Rightarrow> LicDevice" where
  "dev_delay ms d = d\<lparr>dev_delays := dev_delays d @ [ms]\<rparr>"

text \<open>\<^verbatim>\<open>LicDevice::Create\<close>: bind the transport to \<^verbatim>\<open>m_address\<close> and register the two
  handlers.\<close>

definition Create :: "receive_handler \<Rightarrow> LicDeviceRequest \<Rightarrow> LicDevice \<Rightarrow> LicDevice" where
  "Create receive_handler request_handler d =
     d\<lparr>wire_address := m_address d, on_receive := receive_handler, on_request := request_handler\<rparr>"

text \<open>The constructor, on a transport with empty buffers.\<close>

definition LicDevice_new :: "LicDeviceReceive \<Rightarrow> LicDeviceRequest \<Rightarrow> LicDevice" where
  "LicDevice_new receive_handler request_handler =
     Create ReceiveAddress_handler None
       \<lparr>m_address = LICD_LISTENER_ADDRESS, m_receive = receive_handler, m_request = request_handler,
        wire_address = 0, on_receive = User_receive None, on_request = None,
        dev_rx = [], dev_tx = [], dev_delays = []\<rparr>"

text \<open>\<^verbatim>\<open>LicDevice::ReceiveAddress\<close>. Both reads go through \<^verbatim>\<open>uint8_t\<close>, so the \<^verbatim>\<open>int\<close>
  that \<^verbatim>\<open>Wire.read()\<close> returns is cut to its low eight bits.\<close>

definition ReceiveAddress :: "int \<Rightarrow> LicDevice \<Rightarrow> LicDevice" where
  "ReceiveAddress byte_count d =
     dev_delay 30
       (if dev_available d \<noteq> 0
        then (let command = (word_of_int (fst (dev_read d)) :: u8);
                  d1 = snd (dev_read d)
              in if command = LICD_COMMAND_UUID then dev_write 0x00 d1
                 else if command = LICD_COMMAND_ASSIGN
                 then (let d2 = (snd (dev_read d1))\<lparr>m_address := word_of_int (fst (dev_read d1))\<rparr>
                       in Create (User_receive (m_receive d2)) (m_request d2) d2)
                 else if command = LICD_COMMAND_RETRY then d1
                 else d1)
        else d)"

definition GetIsValid :: "LicDevice \<Rightarrow> bool" where
  "GetIsValid d = (m_address d > LICD_LISTENER_ADDRESS)"

definition GetAddress :: "LicDevice \<Rightarrow> u8" where
  "GetAddress d = m_address d"

text \<open>Modelled from the spec: the transport's receive service (section 4.1, \<open>onReceive\<close>).
  A frame on the bus is a target address and its bytes. A slave takes the frames sent to
  the address it is bound to: the bytes become its receive buffer and the registered
  receive handler runs with their count.\<close>

definition on_frame :: "u8 \<times> u8 list \<Rightarrow> LicDevice \<Rightarrow> LicDevice" where
  "on_frame f d =
     (if fst f \<noteq> wire_address d then d
      else (let d1 = d\<lparr>dev_rx := snd f\<rparr>
            in case on_receive d1 of
                 ReceiveAddress_handler \<Rightarrow> ReceiveAddress (int (length (snd f))) d1
               | User_receive None \<Rightarrow> d1
               | User_receive (Some h) \<Rightarrow>
                   (let io = h (int (length (snd f))) (dev_rx d1, dev_tx d1)
                    in d1\<lparr>dev_rx := fst io, dev_tx := snd io\<rparr>)))"

fun on_frames :: "(u8 \<times> u8 list) list \<Rightarrow> LicDevice \<Rightarrow> LicDevice" where
  "on_frames [] d = d"
| "on_frames (f # fs) d = on_frames fs (on_frame f d)"

text \<open>While the library's own handler is registered, the device still listens on the
  listener address.\<close>

definition listening_handler_inv :: "LicDevice \<Rightarrow> bool" where
  "listening_handler_inv d =
     (on_receive d = ReceiveAddress_handler \<longrightarrow> m_address d = LICD_LISTENER_ADDRESS)"

section \<open>The managers a program can hold\<close>

text \<open>\<^verbatim>\<open>m_devices\<close> is private: a manager comes from the constructor and changes only
  through calls of \<^verbatim>\<open>PollDevice\<close> that return.\<close>

inductive reachable :: "LicDeviceManager \<Rightarrow> bool" where
  constructed: "reachable (fst (LicDeviceManager_new retry_count retry_delay wait_delay b))"
| polled: "reachable m \<Longrightarrow> PollDevice m b = Some (m', b') \<Longrightarrow> reachable m'"

section \<open>Concrete inputs\<close>

text \<open>Environment scripts: what the transactions return, what a request delivers, how
  the clock runs.\<close>

definition always_ok :: "nat \<Rightarrow> u8" where
  "always_ok k = 0"

definition nack_twice_then_ok :: "nat \<Rightarrow> u8" where
  "nack_twice_then_ok k = (if k < 2 then 2 else 0)"

definition always_nack :: "nat \<Rightarrow> u8" where
  "always_nack k = 2"

definition reply_with :: "u8 list \<Rightarrow> nat \<Rightarrow> u8 list" where
  "reply_with bytes k = bytes"

definition clock_100ms :: "nat \<Rightarrow> u32" where
  "clock_100ms k = 100 * of_nat k"

definition clock_stopped :: "nat \<Rightarrow> u32" where
  "clock_stopped k = 0"

text \<open>The manager as its constructor leaves it, with the default arguments.\<close>

definition manager_default :: LicDeviceManager where
  "manager_default = fst (LicDeviceManager_new 5 30 15 (board_init always_ok (reply_with []) clock_100ms))"

text \<open>The same manager with a given registry.\<close>

definition manager_with :: "LicDeviceHeader list \<Rightarrow> LicDeviceManager" where
  "manager_with devices = manager_default\<lparr>m_devices := devices\<rparr>"

text \<open>Registries: every slot taken; every slot taken except 2, 5 and 9.\<close>

definition registry_full :: "LicDeviceHeader list" where
  "registry_full = map (\<lambda>i. \<lparr>uuid = of_nat (Suc i), flags = 0\<rparr>) [0..<126]"

definition registry_free_2_5_9 :: "LicDeviceHeader list" where
  "registry_free_2_5_9 =
     ((registry_full[2 := LicDeviceHeader_new])[5 := LicDeviceHeader_new])[9 := LicDeviceHeader_new]"

text \<open>The identity of scenario 1 and its eight bytes on the wire.\<close>

definition identity_1234ABCD :: LicDeviceHeader where
  "identity_1234ABCD = \<lparr>uuid = 0x1234ABCD, flags = 0\<rparr>"


text \<open>Boards: a slave answers the first probe and delivers its eight bytes; a slave
  answers the third probe and delivers only five bytes; nobody answers.\<close>

definition board_one_slave :: board where
  "board_one_slave = board_init always_ok (reply_with (header_bytes identity_1234ABCD)) clock_100ms"

definition board_five_bytes :: board where
  "board_five_bytes = board_init nack_twice_then_ok (reply_with [1, 2, 3, 4, 5]) clock_100ms"

definition board_no_slave :: board where
  "board_no_slave = board_init always_nack (reply_with []) clock_100ms"


text \<open>The registry after one registration: slot 0 taken, the rest free.\<close>

definition registry_one_device :: "LicDeviceHeader list" where
  "registry_one_device =
     (replicate (unat LICD_DEVICE_COUNT) LicDeviceHeader_new)[0 := identity_1234ABCD]"

text \<open>A slot is occupied when its \<^verbatim>\<open>uuid\<close> is above 0.\<close>

definition occupied :: "LicDeviceHeader \<Rightarrow> bool" where
  "occupied h = (0 < uuid h)"

text \<open>A board whose receive buffer holds five bytes and whose clock stands still.\<close>

definition board_stopped_clock :: board where
  "board_stopped_clock =
     (board_init always_ok (reply_with []) clock_stopped)\<lparr>rx := [1, 2, 3, 4, 5]\<rparr>"

text \<open>A board whose receive buffer holds nine bytes.\<close>

definition board_nine_bytes :: board where
  "board_nine_bytes =
     (board_init always_ok (reply_with []) clock_100ms)\<lparr>rx := [1, 2, 3, 4, 5, 6, 7, 8, 9]\<rparr>"

text \<open>The number of transactions the probe step made.\<close>

definition probes_made :: "LicDeviceManager \<Rightarrow> board \<Rightarrow> nat" where
  "probes_made m b = n_end (snd (DoPollDevice m b)) - n_end b"

text \<open>One probe as it appears in the trace.\<close>

definition probe_ops :: "u32 \<Rightarrow> bus_op list" where
  "probe_ops retry_delay =
     [BeginTransmission LICD_LISTENER_ADDRESS, Write LICD_COMMAND_UUID, EndTransmission,
      Delay retry_delay]"

section \<open>Properties\<close>

lemmas licd_consts =
  LICD_LISTENER_ADDRESS_def LICD_ADDRESS_SPACE_def LICD_DEVICE_COUNT_def
  LICD_COMMAND_UUID_def LICD_COMMAND_ASSIGN_def LICD_COMMAND_RETRY_def

subsection \<open>The record on the wire\<close>

lemma u32_of_bytes_u32_bytes: "u32_of_bytes (u32_bytes x) = x"
proof (rule bit_word_eqI)
  fix n
  assume "n < LENGTH(32)"
  then have "n < 32"
    by simp
  then consider "n < 8" | "8 \<le> n \<and> n < 16" | "16 \<le> n \<and> n < 24" | "24 \<le> n \<and> n < 32"
    by arith
  then show "bit (u32_of_bytes (u32_bytes x)) n = bit x n"
    by cases (auto simp add: u32_of_bytes_def u32_bytes_def bit_simps)
qed

lemma header_of_bytes_header_bytes: "header_of_bytes (header_bytes h) = h"
proof -
  have "take 4 (header_bytes h) = u32_bytes (uuid h)"
    and "take 4 (drop 4 (header_bytes h)) = u32_bytes (flags h)"
    by (simp_all add: header_bytes_def u32_bytes_def)
  then show ?thesis
    by (simp add: header_of_bytes_def u32_of_bytes_u32_bytes)
qed

subsection \<open>The slave\<close>

lemma u8_minus_one: "(- 1 :: u8) = 0xFF"
  by simp

lemma ReceiveAddress_assign:
  "dev_rx d = LICD_COMMAND_ASSIGN # rest \<Longrightarrow>
   ReceiveAddress byte_count d =
     dev_delay 30
       (Create (User_receive (m_receive d)) (m_request d)
          ((snd (dev_read (d\<lparr>dev_rx := rest\<rparr>)))
             \<lparr>m_address := word_of_int (fst (dev_read (d\<lparr>dev_rx := rest\<rparr>)))\<rparr>))"
  by (simp add: ReceiveAddress_def dev_available_def dev_read_def Create_def licd_consts Let_def
      split: list.splits)

text \<open>Claim C10. A listening slave that receives ASSIGN with no payload byte in the
  receive buffer still reads: \<^verbatim>\<open>Wire.read()\<close> gives -1, which becomes 0xFF as
  \<^verbatim>\<open>uint8_t\<close>. The slave takes 0xFF as its address, binds the transport to it with the
  application's handlers, and \<^verbatim>\<open>GetIsValid\<close> is true, although 0xFF is outside
  0x02..0x7F.\<close>

theorem ReceiveAddress_assign_without_payload:
  assumes "m_address d = LICD_LISTENER_ADDRESS" and "dev_rx d = [LICD_COMMAND_ASSIGN]"
  shows "m_address (ReceiveAddress byte_count d) = 0xFF
       \<and> wire_address (ReceiveAddress byte_count d) = 0xFF
       \<and> on_receive (ReceiveAddress byte_count d) = User_receive (m_receive d)
       \<and> on_request (ReceiveAddress byte_count d) = m_request d
       \<and> GetIsValid (ReceiveAddress byte_count d)
       \<and> \<not> (LICD_ADDRESS_SPACE \<le> GetAddress (ReceiveAddress byte_count d)
            \<and> GetAddress (ReceiveAddress byte_count d) \<le> 0x7F)"
proof -
  have r: "ReceiveAddress byte_count d =
     dev_delay 30 (Create (User_receive (m_receive d)) (m_request d) (d\<lparr>dev_rx := [], m_address := 0xFF\<rparr>))"
    using assms(2) by (simp add: ReceiveAddress_assign dev_read_def u8_minus_one)
  show ?thesis
    unfolding r by (simp add: dev_delay_def Create_def GetIsValid_def GetAddress_def licd_consts)
qed

theorem ReceiveAddress_assign_without_payload_witness:
  "m_address (ReceiveAddress 1 ((LicDevice_new None None)\<lparr>dev_rx := [LICD_COMMAND_ASSIGN]\<rparr>)) = 0xFF
   \<and> GetIsValid (ReceiveAddress 1 ((LicDevice_new None None)\<lparr>dev_rx := [LICD_COMMAND_ASSIGN]\<rparr>))"
  using ReceiveAddress_assign_without_payload
    [of "(LicDevice_new None None)\<lparr>dev_rx := [LICD_COMMAND_ASSIGN]\<rparr>" 1]
  by (simp add: LicDevice_new_def Create_def)

text \<open>Claim C5. What a slave does with the UUID query. Whatever its state, the handler
  appends the single byte 0x00 to the bytes written for the master and leaves
  \<^verbatim>\<open>m_address\<close> and the request handler as they were. For a slave as the constructor
  leaves it, probed on the listener address: the bytes written are the one byte 0x00, not
  the eight bytes of an identity record; no request handler is registered; the slave
  keeps the listener address.\<close>

theorem ReceiveAddress_uuid_writes_one_zero_byte:
  "dev_tx (ReceiveAddress byte_count (d\<lparr>dev_rx := [LICD_COMMAND_UUID]\<rparr>)) = dev_tx d @ [0x00]
   \<and> m_address (ReceiveAddress byte_count (d\<lparr>dev_rx := [LICD_COMMAND_UUID]\<rparr>)) = m_address d
   \<and> on_request (ReceiveAddress byte_count (d\<lparr>dev_rx := [LICD_COMMAND_UUID]\<rparr>)) = on_request d
   \<and> dev_tx (on_frame (LICD_LISTENER_ADDRESS, [LICD_COMMAND_UUID]) (LicDevice_new r q)) = [0x00]
   \<and> length (dev_tx (on_frame (LICD_LISTENER_ADDRESS, [LICD_COMMAND_UUID]) (LicDevice_new r q)))
       \<noteq> sizeof_LicDeviceHeader
   \<and> on_request (on_frame (LICD_LISTENER_ADDRESS, [LICD_COMMAND_UUID]) (LicDevice_new r q)) = None
   \<and> m_address (on_frame (LICD_LISTENER_ADDRESS, [LICD_COMMAND_UUID]) (LicDevice_new r q))
       = LICD_LISTENER_ADDRESS"
  by (simp add: on_frame_def LicDevice_new_def Create_def ReceiveAddress_def dev_available_def
      dev_read_def dev_write_def dev_delay_def sizeof_LicDeviceHeader_def licd_consts Let_def)

lemma inv_new: "listening_handler_inv (LicDevice_new r q)"
  by (simp add: listening_handler_inv_def LicDevice_new_def Create_def)

lemma ReceiveAddress_cases:
  "ReceiveAddress n d = d' \<Longrightarrow>
   (m_address d' = m_address d \<and> on_receive d' = on_receive d)
   \<or> (\<exists>h. on_receive d' = User_receive h)"
  by (auto simp add: ReceiveAddress_def dev_available_def dev_read_def dev_write_def dev_delay_def
      Create_def Let_def split: list.splits if_splits)

lemma on_frame_cases:
  "(m_address (on_frame f d) = m_address d \<and> on_receive (on_frame f d) = on_receive d)
   \<or> (on_receive d = ReceiveAddress_handler \<and> (\<exists>h. on_receive (on_frame f d) = User_receive h))"
  using ReceiveAddress_cases [OF refl, of "int (length (snd f))" "d\<lparr>dev_rx := snd f\<rparr>"]
  by (auto simp add: on_frame_def Let_def split: receive_handler.splits option.splits)

lemma inv_on_frame: "listening_handler_inv d \<Longrightarrow> listening_handler_inv (on_frame f d)"
  using on_frame_cases [of f d] by (auto simp add: listening_handler_inv_def)

lemma inv_on_frames: "listening_handler_inv d \<Longrightarrow> listening_handler_inv (on_frames fs d)"
  by (induction fs arbitrary: d) (simp_all add: inv_on_frame)

lemma assigned_on_frame:
  "listening_handler_inv d \<Longrightarrow> GetIsValid d \<Longrightarrow> m_address (on_frame f d) = m_address d"
  using on_frame_cases [of f d]
  by (auto simp add: listening_handler_inv_def GetIsValid_def)

lemma assigned_on_frames:
  "listening_handler_inv d \<Longrightarrow> GetIsValid d \<Longrightarrow> m_address (on_frames fs d) = m_address d"
proof (induction fs arbitrary: d)
  case Nil
  then show ?case by simp
next
  case (Cons f fs)
  have a: "m_address (on_frame f d) = m_address d"
    using Cons.prems by (rule assigned_on_frame)
  then have "GetIsValid (on_frame f d)"
    using Cons.prems(2) by (simp add: GetIsValid_def)
  with Cons.IH [of "on_frame f d"] Cons.prems(1) a show ?case
    by (simp add: inv_on_frame)
qed

lemma on_frames_append: "on_frames (fs @ gs) d = on_frames gs (on_frames fs d)"
  by (induction fs arbitrary: d) simp_all

text \<open>Claim C8. Take a device as its constructor leaves it and any frames \<open>fs\<close> from
  the bus. If the device is valid after them (assigned, \<^verbatim>\<open>m_address\<close> above the listener
  address), then after any further frames \<open>gs\<close> it is still valid and \<^verbatim>\<open>m_address\<close> has
  not changed.\<close>

theorem assigned_never_returns_to_listening:
  assumes "GetIsValid (on_frames fs (LicDevice_new r q))"
  shows "GetIsValid (on_frames (fs @ gs) (LicDevice_new r q))
       \<and> m_address (on_frames (fs @ gs) (LicDevice_new r q)) = m_address (on_frames fs (LicDevice_new r q))"
proof -
  let ?d = "on_frames fs (LicDevice_new r q)"
  have "listening_handler_inv ?d"
    by (rule inv_on_frames [OF inv_new])
  then have "m_address (on_frames gs ?d) = m_address ?d"
    using assms by (rule assigned_on_frames)
  then show ?thesis
    using assms by (simp add: on_frames_append GetIsValid_def)
qed

theorem assigned_never_returns_to_listening_witness:
  "GetIsValid (on_frames [(0x01, [0x02, 0x07])] (LicDevice_new None None))
   \<and> GetIsValid (on_frames ([(0x01, [0x02, 0x07])] @ [(0x01, [0x02, 0x01]), (0x07, [0x02, 0x01]), (0x01, [0x01])])
        (LicDevice_new None None))
   \<and> m_address (on_frames ([(0x01, [0x02, 0x07])] @ [(0x01, [0x02, 0x01]), (0x07, [0x02, 0x01]), (0x01, [0x01])])
        (LicDevice_new None None)) = 0x07"
proof -
  have v: "GetIsValid (on_frames [(0x01, [0x02, 0x07])] (LicDevice_new None None))"
    by (simp add: on_frame_def LicDevice_new_def Create_def ReceiveAddress_def dev_available_def
      dev_read_def dev_write_def dev_delay_def GetIsValid_def licd_consts Let_def)
  have a: "m_address (on_frames [(0x01, [0x02, 0x07])] (LicDevice_new None None)) = 0x07"
    by (simp add: on_frame_def LicDevice_new_def Create_def ReceiveAddress_def dev_available_def
      dev_read_def dev_write_def dev_delay_def GetIsValid_def licd_consts Let_def)
  show ?thesis
    using v a assigned_never_returns_to_listening [OF v, of "[(0x01, [0x02, 0x01]), (0x07, [0x02, 0x01]), (0x01, [0x01])]"]
    by simp
qed

subsection \<open>The registration loop\<close>

lemma RegisterDevice_loop_done:
  "\<not> (a = LICD_LISTENER_ADDRESS \<and> off < LICD_DEVICE_COUNT) \<Longrightarrow>
   RegisterDevice_loop h m a off = Some (a, m)"
  by (subst RegisterDevice_loop.simps) auto

lemma RegisterDevice_loop_free:
  assumes "off < LICD_DEVICE_COUNT" and "uuid (m_devices m ! unat off) = 0"
  shows "RegisterDevice_loop h m LICD_LISTENER_ADDRESS off =
           Some (LICD_ADDRESS_SPACE + off, m\<lparr>m_devices := (m_devices m)[unat off := h]\<rparr>)"
proof -
  have "unat off < 126"
    using assms(1) by (simp add: LICD_DEVICE_COUNT_def word_less_nat_alt)
  then have "unat (LICD_ADDRESS_SPACE + off) = 2 + unat off"
    by (simp add: LICD_ADDRESS_SPACE_def unat_word_ariths)
  then have "LICD_ADDRESS_SPACE + off \<noteq> LICD_LISTENER_ADDRESS"
    by (auto simp add: LICD_LISTENER_ADDRESS_def)
  then show ?thesis
    using assms
    by (subst RegisterDevice_loop.simps) (simp add: RegisterDevice_loop_done)
qed

lemma RegisterDevice_loop_spins:
  assumes "RegisterDevice_loop h m a off = Some y"
  shows "\<not> (a = LICD_LISTENER_ADDRESS \<and> off < LICD_DEVICE_COUNT \<and> 0 < uuid (m_devices m ! unat off))"
proof (rule RegisterDevice_loop.raw_induct
    [where P = "\<lambda>h m a off y. \<not> (a = LICD_LISTENER_ADDRESS \<and> off < LICD_DEVICE_COUNT
                     \<and> 0 < uuid (m_devices m ! unat off))", OF _ assms])
  fix f header m' new_address address_offset r
  assume IH: "\<And>h m a off y. f h m a off = Some y \<Longrightarrow>
      \<not> (a = LICD_LISTENER_ADDRESS \<and> off < LICD_DEVICE_COUNT \<and> 0 < uuid (m_devices m ! unat off))"
    and step: "(if new_address = LICD_LISTENER_ADDRESS \<and> address_offset < LICD_DEVICE_COUNT
      then if 0 < uuid (m_devices m' ! unat address_offset)
           then f header m' new_address address_offset
           else f header (m'\<lparr>m_devices := (m_devices m')[unat address_offset := header]\<rparr>)
                  (LICD_ADDRESS_SPACE + address_offset) address_offset
      else Some (new_address, m')) = Some r"
  show "\<not> (new_address = LICD_LISTENER_ADDRESS \<and> address_offset < LICD_DEVICE_COUNT
           \<and> 0 < uuid (m_devices m' ! unat address_offset))"
  proof
    assume c: "new_address = LICD_LISTENER_ADDRESS \<and> address_offset < LICD_DEVICE_COUNT
         \<and> 0 < uuid (m_devices m' ! unat address_offset)"
    with step have "f header m' new_address address_offset = Some r"
      by simp
    from IH [OF this] c show False
      by simp
  qed
qed

lemma RegisterDevice_loop_occupied:
  assumes "off < LICD_DEVICE_COUNT" and "0 < uuid (m_devices m ! unat off)"
  shows "RegisterDevice_loop h m LICD_LISTENER_ADDRESS off = None"
proof (cases "RegisterDevice_loop h m LICD_LISTENER_ADDRESS off")
  case None
  then show ?thesis .
next
  case (Some y)
  from RegisterDevice_loop_spins [OF this] assms show ?thesis
    by simp
qed

subsection \<open>Waiting and reading\<close>

lemma wait_loop_ready:
  "sizeof_T \<le> Wire_available b \<Longrightarrow> WireHelper_wait_loop sizeof_T start timeout b = Some (False, b)"
  by (subst WireHelper_wait_loop.simps) simp

lemma wait_loop_timeout:
  assumes "Wire_available b < sizeof_T"
    and "timeout < ucast (clock b (n_millis b + k)) - start"
    and "\<forall>j<k. \<not> timeout < ucast (clock b (n_millis b + j)) - start"
  shows "WireHelper_wait_loop sizeof_T start timeout b =
           Some (True, Serial_print wait_message (b\<lparr>n_millis := Suc (n_millis b + k)\<rparr>))"
  using assms
proof (induction k arbitrary: b)
  case 0
  then show ?case
    by (subst WireHelper_wait_loop.simps) (simp add: millis_def)
next
  case (Suc k)
  let ?b = "snd (millis b)"
  have a: "Wire_available ?b < sizeof_T"
    using Suc.prems(1) by (simp add: millis_def Wire_available_def)
  have e: "timeout < ucast (clock ?b (n_millis ?b + k)) - start"
    using Suc.prems(2) by (simp add: millis_def)
  have n: "\<forall>j<k. \<not> timeout < ucast (clock ?b (n_millis ?b + j)) - start"
    using Suc.prems(3) by (auto simp add: millis_def)
  have first: "\<not> timeout < ucast (fst (millis b)) - start"
    using Suc.prems(3) by (auto simp add: millis_def)
  have "WireHelper_wait_loop sizeof_T start timeout b = WireHelper_wait_loop sizeof_T start timeout ?b"
    using Suc.prems(1) first by (subst WireHelper_wait_loop.simps) simp
  also have "\<dots> = Some (True, Serial_print wait_message (?b\<lparr>n_millis := Suc (n_millis ?b + k)\<rparr>))"
    using a e n by (rule Suc.IH)
  finally show ?case
    by (simp add: millis_def)
qed

lemma wait_loop_spins:
  assumes "WireHelper_wait_loop sizeof_T start timeout b = Some y"
  shows "\<not> (Wire_available b < sizeof_T
            \<and> (\<forall>k. \<not> timeout < ucast (clock b (n_millis b + k)) - start))"
proof (rule WireHelper_wait_loop.raw_induct
    [where P = "\<lambda>sizeof_T start timeout b y. \<not> (Wire_available b < sizeof_T
            \<and> (\<forall>k. \<not> timeout < ucast (clock b (n_millis b + k)) - start))", OF _ assms])
  fix f sizeof_T start timeout b r
  assume IH: "\<And>sizeof_T start timeout b y. f sizeof_T start timeout b = Some y \<Longrightarrow>
      \<not> (Wire_available b < sizeof_T
            \<and> (\<forall>k. \<not> timeout < ucast (clock b (n_millis b + k)) - start))"
    and step: "(if Wire_available b < sizeof_T
      then if timeout < ucast (fst (millis b)) - start
           then Some (True, Serial_print wait_message (snd (millis b)))
           else f sizeof_T start timeout (snd (millis b))
      else Some (False, b)) = Some r"
  show "\<not> (Wire_available b < sizeof_T
            \<and> (\<forall>k. \<not> timeout < ucast (clock b (n_millis b + k)) - start))"
  proof
    assume c: "Wire_available b < sizeof_T
            \<and> (\<forall>k. \<not> timeout < ucast (clock b (n_millis b + k)) - start)"
    then have "\<not> timeout < ucast (clock b (n_millis b + 0)) - start"
      by blast
    then have "\<not> timeout < ucast (fst (millis b)) - start"
      by (simp add: millis_def)
    with step c have "f sizeof_T start timeout (snd (millis b)) = Some r"
      by simp
    from IH [OF this] have "\<not> (Wire_available (snd (millis b)) < sizeof_T
            \<and> (\<forall>k. \<not> timeout < ucast (clock (snd (millis b)) (n_millis (snd (millis b)) + k)) - start))" .
    moreover have "Wire_available (snd (millis b)) < sizeof_T"
      using c by (simp add: millis_def Wire_available_def)
    moreover have "\<forall>k. \<not> timeout < ucast (clock (snd (millis b)) (n_millis (snd (millis b)) + k)) - start"
    proof
      fix k
      from c have "\<not> timeout < ucast (clock b (n_millis b + Suc k)) - start"
        by blast
      then show "\<not> timeout < ucast (clock (snd (millis b)) (n_millis (snd (millis b)) + k)) - start"
        by (simp add: millis_def)
    qed
    ultimately show False
      by blast
  qed
qed

lemma wait_loop_never:
  assumes "Wire_available b < sizeof_T"
    and "\<forall>k. \<not> timeout < ucast (clock b (n_millis b + k)) - start"
  shows "WireHelper_wait_loop sizeof_T start timeout b = None"
proof (cases "WireHelper_wait_loop sizeof_T start timeout b")
  case None
  then show ?thesis .
next
  case (Some y)
  from wait_loop_spins [OF this] assms show ?thesis
    by simp
qed

lemma read_loop_copy:
  assumes "data_size \<le> length bytes" and "k = min (length (rx b)) (data_size - data_offset)"
  shows "WireHelper_read_loop data_size bytes data_offset b =
           (take data_offset bytes @ take k (rx b) @ drop (data_offset + k) bytes,
            data_offset + k, b\<lparr>rx := drop k (rx b)\<rparr>)"
  using assms
proof (induction data_size bytes data_offset b arbitrary: k rule: WireHelper_read_loop.induct)
  case (1 data_size bytes data_offset b)
  show ?case
  proof (cases "Wire_available b \<noteq> 0 \<and> data_offset < data_size")
    case False
    then have "k = 0"
      using "1.prems"(2) by (auto simp add: Wire_available_def)
    with False show ?thesis
      by (subst WireHelper_read_loop.simps) (auto simp add: Wire_available_def)
  next
    case True
    then obtain x xs where rx: "rx b = x # xs"
      by (cases "rx b") (auto simp add: Wire_available_def)
    define k' where k'_def: "k' = min (length xs) (data_size - Suc data_offset)"
    have k': "k = Suc k'"
    proof -
      have "data_offset < data_size" using True by simp
      moreover have "k = min (Suc (length xs)) (data_size - data_offset)"
        using "1.prems"(2) rx by simp
      ultimately show ?thesis
        unfolding k'_def by arith
    qed
    let ?bytes = "bytes[data_offset := word_of_int (fst (Wire_read b))]"
    let ?b = "snd (Wire_read b)"
    have rd: "fst (Wire_read b) = uint x" "?b = b\<lparr>rx := xs\<rparr>"
      using rx by (simp_all add: Wire_read_def)
    have "WireHelper_read_loop data_size ?bytes (Suc data_offset) ?b =
           (take (Suc data_offset) ?bytes @ take k' (rx ?b) @ drop (Suc data_offset + k') ?bytes,
            Suc data_offset + k', ?b\<lparr>rx := drop k' (rx ?b)\<rparr>)"
      using True "1.prems" k' k'_def rd
      by (intro "1.IH") simp_all
    moreover have "take (Suc data_offset) ?bytes = take data_offset bytes @ [x]"
      using True "1.prems"(1) rd by (simp add: take_Suc_conv_app_nth)
    moreover have "drop (Suc data_offset + k') ?bytes = drop (data_offset + k) bytes"
      using k' by simp
    moreover have "WireHelper_read_loop data_size bytes data_offset b
        = WireHelper_read_loop data_size ?bytes (Suc data_offset) ?b"
      using True by (subst WireHelper_read_loop.simps) simp
    ultimately show ?thesis
      using rd rx k' by simp
  qed
qed

lemma wait_ready:
  "sizeof_T \<le> Wire_available b \<Longrightarrow> WireHelper_wait sizeof_T timeout b = Some (False, snd (millis b))"
  by (simp add: WireHelper_wait_def wait_loop_ready millis_def Wire_available_def)

lemma wait_timeout:
  assumes "Wire_available b < sizeof_T"
    and "timeout < ucast (clock b (Suc (n_millis b) + k)) - ucast (clock b (n_millis b))"
    and "\<forall>j<k. \<not> timeout < ucast (clock b (Suc (n_millis b) + j)) - ucast (clock b (n_millis b))"
  shows "WireHelper_wait sizeof_T timeout b =
           Some (True, Serial_print wait_message (b\<lparr>n_millis := Suc (Suc (n_millis b) + k)\<rparr>))"
proof -
  let ?b = "snd (millis b)"
  have "WireHelper_wait_loop sizeof_T (ucast (fst (millis b))) timeout ?b =
          Some (True, Serial_print wait_message (?b\<lparr>n_millis := Suc (n_millis ?b + k)\<rparr>))"
    using assms by (intro wait_loop_timeout) (simp_all add: millis_def Wire_available_def)
  then show ?thesis
    by (simp add: WireHelper_wait_def millis_def)
qed

lemma wait_never:
  assumes "Wire_available b < sizeof_T"
    and "\<forall>k. \<not> timeout < ucast (clock b (Suc (n_millis b) + k)) - ucast (clock b (n_millis b))"
  shows "WireHelper_wait sizeof_T timeout b = None"
  unfolding WireHelper_wait_def
  using assms by (intro wait_loop_never) (simp_all add: millis_def Wire_available_def)

text \<open>Whatever wait returns when the buffer is short, it is a timeout and only the clock and log moved.\<close>

lemma wait_short:
  assumes "Wire_available b < sizeof_T" and "WireHelper_wait sizeof_T timeout b = Some w"
  shows "\<exists>k. timeout < ucast (clock b (Suc (n_millis b) + k)) - ucast (clock b (n_millis b))
            \<and> w = (True, Serial_print wait_message (b\<lparr>n_millis := Suc (Suc (n_millis b) + k)\<rparr>))"
proof -
  let ?E = "\<lambda>k. timeout < ucast (clock b (Suc (n_millis b) + k)) - ucast (clock b (n_millis b))"
  have "\<exists>k. ?E k"
    using wait_never [OF assms(1), of timeout] assms(2) by auto
  then have l: "?E (LEAST k. ?E k)"
    by (rule LeastI_ex)
  have "\<forall>j<(LEAST k. ?E k). \<not> ?E j"
    using not_less_Least by blast
  from wait_timeout [OF assms(1) l this] assms(2) l show ?thesis
    by auto
qed

lemma read_ready:
  assumes "sizeof_T \<le> Wire_available b" and "length data = sizeof_T"
  shows "WireHelper_read sizeof_T data 1 timeout b =
           Some (True, take sizeof_T (rx b), (snd (millis b))\<lparr>rx := drop sizeof_T (rx b)\<rparr>)"
proof -
  let ?b = "snd (millis b)"
  have "WireHelper_read_loop sizeof_T data 0 ?b =
          (take 0 data @ take sizeof_T (rx ?b) @ drop (0 + sizeof_T) data, 0 + sizeof_T,
           ?b\<lparr>rx := drop sizeof_T (rx ?b)\<rparr>)"
    using assms by (intro read_loop_copy) (simp_all add: millis_def Wire_available_def)
  then show ?thesis
    using assms by (simp add: WireHelper_read_def wait_ready millis_def)
qed

lemma read_short:
  assumes "Wire_available b < sizeof_T" and "WireHelper_read sizeof_T data count timeout b = Some r"
  shows "\<not> fst r \<and> fst (snd r) = data \<and> rx (snd (snd r)) = rx b \<and> sent (snd (snd r)) = sent b
       \<and> end_results (snd (snd r)) = end_results b \<and> n_end (snd (snd r)) = n_end b"
proof (cases "count = 0")
  case True
  with assms(2) show ?thesis
    by (auto simp add: WireHelper_read_def)
next
  case False
  with assms(2) obtain w where w: "WireHelper_wait sizeof_T timeout b = Some w"
    by (auto simp add: WireHelper_read_def split: option.splits)
  from wait_short [OF assms(1) w] obtain k where
    "w = (True, Serial_print wait_message (b\<lparr>n_millis := Suc (Suc (n_millis b) + k)\<rparr>))"
    by blast
  with assms(2) w False show ?thesis
    by (auto simp add: WireHelper_read_def Serial_print_def)
qed

lemma read_timeout:
  assumes "Wire_available b < sizeof_T" and "count \<noteq> 0"
    and "timeout < ucast (clock b (Suc (n_millis b) + k)) - ucast (clock b (n_millis b))"
  shows "\<exists>b'. WireHelper_read sizeof_T data count timeout b = Some (False, data, b')"
proof -
  let ?E = "\<lambda>k. timeout < ucast (clock b (Suc (n_millis b) + k)) - ucast (clock b (n_millis b))"
  have l: "?E (LEAST k. ?E k)"
    using assms(3) by (rule LeastI)
  have "\<forall>j<(LEAST k. ?E k). \<not> ?E j"
    using not_less_Least by blast
  from wait_timeout [OF assms(1) l this] assms(2) show ?thesis
    by (simp add: WireHelper_read_def)
qed

subsection \<open>The probe step\<close>

lemma probe_once_eq:
  "probe_once d b = (ucast (end_results b (n_end b)),
      b\<lparr>sent := sent b @ probe_ops d, n_end := Suc (n_end b)\<rparr>)"
  by (simp add: probe_once_def probe_ops_def Wire_beginTransmission_def Wire_write_def
      Wire_endTransmission_def delay_def Let_def)

lemma ucast_u8_u32_eq_0: "(ucast (x :: u8) :: u32) = 0 \<longleftrightarrow> x = 0"
proof -
  have "unat x < 2 ^ 8"
    using unsigned_less [of x] by simp
  then have "unat x < 2 ^ 32"
    by simp
  then have "take_bit 32 (unat x) = unat x"
    by (simp only: take_bit_nat_eq_self)
  then show ?thesis
    by (simp add: word_eq_iff_unsigned [where ?'a = nat] unsigned_ucast_eq)
qed

lemma DoPollDevice_loop_spec:
  "\<exists>n. n \<le> unat (m_retry_count m) - unat c
     \<and> snd (DoPollDevice_loop m e c b)
         = b\<lparr>sent := sent b @ concat (replicate n (probe_ops (m_retry_delay m))), n_end := n_end b + n\<rparr>
     \<and> (\<forall>i. Suc i < n \<longrightarrow> end_results b (n_end b + i) \<noteq> 0)
     \<and> (0 < n \<longrightarrow> fst (DoPollDevice_loop m e c b) = ucast (end_results b (n_end b + n - 1)))
     \<and> (n = 0 \<longrightarrow> fst (DoPollDevice_loop m e c b) = e)
     \<and> (e = 0 \<longrightarrow> n = 0)
     \<and> (e \<noteq> 0 \<and> fst (DoPollDevice_loop m e c b) \<noteq> 0 \<longrightarrow> n = unat (m_retry_count m) - unat c)"
proof (induction m e c b rule: DoPollDevice_loop.induct)
  case (1 m e c b)
  show ?case
  proof (cases "0 < e \<and> c < m_retry_count m")
    case False
    then have eq: "DoPollDevice_loop m e c b = (e, b)"
      by (subst DoPollDevice_loop.simps) auto
    have "e \<noteq> 0 \<longrightarrow> unat (m_retry_count m) - unat c = 0"
      using False by (auto simp add: word_neq_0_conv word_less_nat_alt)
    then show ?thesis
      unfolding eq by (intro exI [of _ 0]) simp
  next
    case True
    let ?e = "fst (probe_once (m_retry_delay m) b)"
    let ?b = "snd (probe_once (m_retry_delay m) b)"
    have eq: "DoPollDevice_loop m e c b = DoPollDevice_loop m ?e (c + 1) ?b"
      using True by (subst DoPollDevice_loop.simps) simp
    have c_lt: "unat c < unat (m_retry_count m)"
      using True by (simp add: word_less_nat_alt)
    have "unat (m_retry_count m) < 2 ^ 32"
      using unsigned_less [of "m_retry_count m"] by simp
    with c_lt have "unat c + unat (1 :: u32) < 2 ^ LENGTH(32)"
      by simp
    then have "unat (c + 1) = unat c + unat (1 :: u32)"
      by (simp only: unat_add_lem)
    then have c_suc: "unat (c + 1) = Suc (unat c)"
      by simp
    have e_eq: "?e = ucast (end_results b (n_end b))"
      and b_eq: "?b = b\<lparr>sent := sent b @ probe_ops (m_retry_delay m), n_end := Suc (n_end b)\<rparr>"
      by (simp_all add: probe_once_eq)
    from "1.IH" [OF True] obtain n where Q:
      "n \<le> unat (m_retry_count m) - unat (c + 1)
     \<and> snd (DoPollDevice_loop m ?e (c + 1) ?b)
         = ?b\<lparr>sent := sent ?b @ concat (replicate n (probe_ops (m_retry_delay m))), n_end := n_end ?b + n\<rparr>
     \<and> (\<forall>i. Suc i < n \<longrightarrow> end_results ?b (n_end ?b + i) \<noteq> 0)
     \<and> (0 < n \<longrightarrow> fst (DoPollDevice_loop m ?e (c + 1) ?b) = ucast (end_results ?b (n_end ?b + n - 1)))
     \<and> (n = 0 \<longrightarrow> fst (DoPollDevice_loop m ?e (c + 1) ?b) = ?e)
     \<and> (?e = 0 \<longrightarrow> n = 0)
     \<and> (?e \<noteq> 0 \<and> fst (DoPollDevice_loop m ?e (c + 1) ?b) \<noteq> 0 \<longrightarrow> n = unat (m_retry_count m) - unat (c + 1))"
      ..
    note n_le = Q [THEN conjunct1]
    note snd_eq = Q [THEN conjunct2, THEN conjunct1]
    note before = Q [THEN conjunct2, THEN conjunct2, THEN conjunct1]
    note last = Q [THEN conjunct2, THEN conjunct2, THEN conjunct2, THEN conjunct1]
    note none = Q [THEN conjunct2, THEN conjunct2, THEN conjunct2, THEN conjunct2, THEN conjunct1]
    note ok = Q [THEN conjunct2, THEN conjunct2, THEN conjunct2, THEN conjunct2, THEN conjunct2,
      THEN conjunct1]
    note all = Q [THEN conjunct2, THEN conjunct2, THEN conjunct2, THEN conjunct2, THEN conjunct2,
      THEN conjunct2]
    show ?thesis
    proof (intro exI [of _ "Suc n"] conjI)
      show "Suc n \<le> unat (m_retry_count m) - unat c"
        using n_le c_suc c_lt by simp
      show "snd (DoPollDevice_loop m e c b)
         = b\<lparr>sent := sent b @ concat (replicate (Suc n) (probe_ops (m_retry_delay m))), n_end := n_end b + Suc n\<rparr>"
        unfolding eq snd_eq by (simp add: b_eq)
      show "\<forall>i. Suc i < Suc n \<longrightarrow> end_results b (n_end b + i) \<noteq> 0"
      proof (intro allI impI)
        fix i assume i: "Suc i < Suc n"
        show "end_results b (n_end b + i) \<noteq> 0"
        proof (cases i)
          case 0
          with i ok have "?e \<noteq> 0" by auto
          with 0 show ?thesis
            by (simp add: e_eq ucast_u8_u32_eq_0)
        next
          case (Suc j)
          with i before have "end_results ?b (n_end ?b + j) \<noteq> 0" by simp
          with Suc show ?thesis by (simp add: b_eq)
        qed
      qed
      show "0 < Suc n \<longrightarrow> fst (DoPollDevice_loop m e c b) = ucast (end_results b (n_end b + Suc n - 1))"
      proof (cases n)
        case 0
        with none show ?thesis
          unfolding eq by (simp add: e_eq)
      next
        case (Suc j)
        with last show ?thesis
          unfolding eq by (simp add: b_eq)
      qed
      show "Suc n = 0 \<longrightarrow> fst (DoPollDevice_loop m e c b) = e"
        by simp
      show "e = 0 \<longrightarrow> Suc n = 0"
        using True by auto
      show "e \<noteq> 0 \<and> fst (DoPollDevice_loop m e c b) \<noteq> 0 \<longrightarrow> Suc n = unat (m_retry_count m) - unat c"
      proof
        assume a: "e \<noteq> 0 \<and> fst (DoPollDevice_loop m e c b) \<noteq> 0"
        have "?e \<noteq> 0"
        proof
          assume z: "?e = 0"
          with ok none have "fst (DoPollDevice_loop m ?e (c + 1) ?b) = 0" by simp
          with a show False unfolding eq by simp
        qed
        with a all have "n = unat (m_retry_count m) - unat (c + 1)"
          unfolding eq by simp
        then show "Suc n = unat (m_retry_count m) - unat c"
          using c_suc c_lt by simp
      qed
    qed
  qed
qed

lemma report_fields:
  "sent (DoPollDevice_report e b) = sent b" "n_end (DoPollDevice_report e b) = n_end b"
  "rx (DoPollDevice_report e b) = rx b" "end_results (DoPollDevice_report e b) = end_results b"
  "replies (DoPollDevice_report e b) = replies b" "n_req (DoPollDevice_report e b) = n_req b"
  "clock (DoPollDevice_report e b) = clock b" "n_millis (DoPollDevice_report e b) = n_millis b"
  by (simp_all add: DoPollDevice_report_def Serial_print_def)

lemma DoPollDevice_fields:
  "rx (snd (DoPollDevice m b)) = rx b" "end_results (snd (DoPollDevice m b)) = end_results b"
  "replies (snd (DoPollDevice m b)) = replies b" "n_req (snd (DoPollDevice m b)) = n_req b"
  "clock (snd (DoPollDevice m b)) = clock b" "n_millis (snd (DoPollDevice m b)) = n_millis b"
proof -
  from DoPollDevice_loop_spec [of m 0 5 b] obtain n where
    "snd (DoPollDevice_loop m 5 0 b)
       = b\<lparr>sent := sent b @ concat (replicate n (probe_ops (m_retry_delay m))), n_end := n_end b + n\<rparr>"
    by blast
  then show "rx (snd (DoPollDevice m b)) = rx b" "end_results (snd (DoPollDevice m b)) = end_results b"
  "replies (snd (DoPollDevice m b)) = replies b" "n_req (snd (DoPollDevice m b)) = n_req b"
  "clock (snd (DoPollDevice m b)) = clock b" "n_millis (snd (DoPollDevice m b)) = n_millis b"
    by (simp_all add: DoPollDevice_def Let_def report_fields)
qed

text \<open>Claim C6. With \<open>r\<close> the configured retry count, the probe step makes at most
  \<open>r\<close> transactions; each is a transmission to the listener address of the one UUID
  command byte followed by a pause of \<^verbatim>\<open>m_retry_delay\<close>; no transaction before the last
  one returned Ok; \<^verbatim>\<open>DoPollDevice\<close> returns true exactly when the last transaction made
  returned Ok, which is exactly when one of the \<open>r\<close> possible transactions returns Ok;
  otherwise all \<open>r\<close> were made and \<^verbatim>\<open>PollDevice\<close> returns with nothing else done.\<close>

theorem DoPollDevice_probe:
  "probes_made m b \<le> unat (m_retry_count m)
   \<and> n_end (snd (DoPollDevice m b)) = n_end b + probes_made m b
   \<and> sent (snd (DoPollDevice m b))
       = sent b @ concat (replicate (probes_made m b)
           [BeginTransmission LICD_LISTENER_ADDRESS, Write LICD_COMMAND_UUID, EndTransmission,
            Delay (m_retry_delay m)])
   \<and> (\<forall>i. Suc i < probes_made m b \<longrightarrow> end_results b (n_end b + i) \<noteq> 0)
   \<and> (fst (DoPollDevice m b) \<longleftrightarrow>
        0 < probes_made m b \<and> end_results b (n_end b + probes_made m b - 1) = 0)
   \<and> (fst (DoPollDevice m b) \<longleftrightarrow>
        (\<exists>i < unat (m_retry_count m). end_results b (n_end b + i) = 0))
   \<and> (\<not> fst (DoPollDevice m b) \<longrightarrow>
        probes_made m b = unat (m_retry_count m) \<and> PollDevice m b = Some (m, snd (DoPollDevice m b)))"
proof -
  let ?r = "DoPollDevice_loop m 5 0 b"
  from DoPollDevice_loop_spec [of m 0 5 b] obtain n where Q:
    "n \<le> unat (m_retry_count m) - unat (0 :: u32)
     \<and> snd ?r = b\<lparr>sent := sent b @ concat (replicate n (probe_ops (m_retry_delay m))), n_end := n_end b + n\<rparr>
     \<and> (\<forall>i. Suc i < n \<longrightarrow> end_results b (n_end b + i) \<noteq> 0)
     \<and> (0 < n \<longrightarrow> fst ?r = ucast (end_results b (n_end b + n - 1)))
     \<and> (n = 0 \<longrightarrow> fst ?r = 5)
     \<and> ((5 :: u32) = 0 \<longrightarrow> n = 0)
     \<and> ((5 :: u32) \<noteq> 0 \<and> fst ?r \<noteq> 0 \<longrightarrow> n = unat (m_retry_count m) - unat (0 :: u32))"
    ..
  note n_le = Q [THEN conjunct1]
  note snd_eq = Q [THEN conjunct2, THEN conjunct1]
  note before = Q [THEN conjunct2, THEN conjunct2, THEN conjunct1]
  note last = Q [THEN conjunct2, THEN conjunct2, THEN conjunct2, THEN conjunct1]
  note none = Q [THEN conjunct2, THEN conjunct2, THEN conjunct2, THEN conjunct2, THEN conjunct1]
  note all = Q [THEN conjunct2, THEN conjunct2, THEN conjunct2, THEN conjunct2, THEN conjunct2,
      THEN conjunct2]
  have n: "probes_made m b = n"
    by (simp add: probes_made_def DoPollDevice_def Let_def report_fields snd_eq)
  have ok: "fst (DoPollDevice m b) \<longleftrightarrow> fst ?r = 0"
    by (simp add: DoPollDevice_def Let_def)
  have ok_last: "fst (DoPollDevice m b) \<longleftrightarrow> 0 < n \<and> end_results b (n_end b + n - 1) = 0"
  proof (cases n)
    case 0
    with none ok show ?thesis by simp
  next
    case (Suc j)
    with last ok show ?thesis by (simp add: ucast_u8_u32_eq_0)
  qed
  have ok_any: "fst (DoPollDevice m b) \<longleftrightarrow> (\<exists>i < unat (m_retry_count m). end_results b (n_end b + i) = 0)"
  proof
    assume "fst (DoPollDevice m b)"
    with ok_last have "0 < n" and "end_results b (n_end b + (n - 1)) = 0" by simp_all
    moreover from \<open>0 < n\<close> n_le have "n - 1 < unat (m_retry_count m)" by simp
    ultimately show "\<exists>i < unat (m_retry_count m). end_results b (n_end b + i) = 0" by blast
  next
    assume "\<exists>i < unat (m_retry_count m). end_results b (n_end b + i) = 0"
    then obtain i where i: "i < unat (m_retry_count m)" "end_results b (n_end b + i) = 0" by blast
    show "fst (DoPollDevice m b)"
    proof (rule ccontr)
      assume no: "\<not> fst (DoPollDevice m b)"
      with ok all have full: "n = unat (m_retry_count m)" by simp
      show False
      proof (cases "Suc i < n")
        case True
        with before i(2) show False by simp
      next
        case False
        with i(1) full have "i = n - 1" and "0 < n" by simp_all
        with i(2) ok_last no show False by simp
      qed
    qed
  qed
  have abort: "\<not> fst (DoPollDevice m b) \<longrightarrow>
        n = unat (m_retry_count m) \<and> PollDevice m b = Some (m, snd (DoPollDevice m b))"
    using ok all by (simp add: PollDevice_def Let_def)
  have sent_eq: "sent (snd (DoPollDevice m b)) = sent b @ concat (replicate n (probe_ops (m_retry_delay m)))"
    and n_end_eq: "n_end (snd (DoPollDevice m b)) = n_end b + n"
    by (simp_all add: DoPollDevice_def Let_def report_fields snd_eq)
  show ?thesis
    unfolding n
  proof (intro conjI)
    show "n \<le> unat (m_retry_count m)"
      using n_le by simp
    show "n_end (snd (DoPollDevice m b)) = n_end b + n"
      by (rule n_end_eq)
    show "sent (snd (DoPollDevice m b)) = sent b @ concat (replicate n
           [BeginTransmission LICD_LISTENER_ADDRESS, Write LICD_COMMAND_UUID, EndTransmission,
            Delay (m_retry_delay m)])"
      using sent_eq by (simp only: probe_ops_def)
    show "\<forall>i. Suc i < n \<longrightarrow> end_results b (n_end b + i) \<noteq> 0"
      by (rule before)
    show "fst (DoPollDevice m b) \<longleftrightarrow> 0 < n \<and> end_results b (n_end b + n - 1) = 0"
      by (rule ok_last)
    show "fst (DoPollDevice m b) \<longleftrightarrow>
        (\<exists>i < unat (m_retry_count m). end_results b (n_end b + i) = 0)"
      by (rule ok_any)
    show "\<not> fst (DoPollDevice m b) \<longrightarrow>
        n = unat (m_retry_count m) \<and> PollDevice m b = Some (m, snd (DoPollDevice m b))"
      by (rule abort)
  qed
qed

theorem DoPollDevice_probe_witness:
  "probes_made manager_default board_five_bytes = 3
   \<and> Suc 0 < probes_made manager_default board_five_bytes
   \<and> end_results board_five_bytes (n_end board_five_bytes + 0) \<noteq> 0
   \<and> fst (DoPollDevice manager_default board_five_bytes)
   \<and> end_results board_five_bytes (n_end board_five_bytes + probes_made manager_default board_five_bytes - 1) = 0
   \<and> \<not> fst (DoPollDevice manager_default board_no_slave)
   \<and> probes_made manager_default board_no_slave = unat (m_retry_count manager_default)
   \<and> PollDevice manager_default board_no_slave
       = Some (manager_default, snd (DoPollDevice manager_default board_no_slave))"
proof -
  have a: "probes_made manager_default board_five_bytes = 3"
    by code_simp
  have b: "\<not> fst (DoPollDevice manager_default board_no_slave)"
    by code_simp
  note five = DoPollDevice_probe [of manager_default board_five_bytes]
  note none = DoPollDevice_probe [of manager_default board_no_slave]
  have c: "end_results board_five_bytes (n_end board_five_bytes + 0) \<noteq> 0"
    using five [THEN conjunct2, THEN conjunct2, THEN conjunct2, THEN conjunct1, THEN spec, of 0] a
    by simp
  have d: "fst (DoPollDevice manager_default board_five_bytes)"
    by code_simp
  have e: "end_results board_five_bytes
      (n_end board_five_bytes + probes_made manager_default board_five_bytes - 1) = 0"
    using five [THEN conjunct2, THEN conjunct2, THEN conjunct2, THEN conjunct2, THEN conjunct1] d
    by simp
  have f: "probes_made manager_default board_no_slave = unat (m_retry_count manager_default)
     \<and> PollDevice manager_default board_no_slave
       = Some (manager_default, snd (DoPollDevice manager_default board_no_slave))"
    using none [THEN conjunct2, THEN conjunct2, THEN conjunct2, THEN conjunct2, THEN conjunct2,
      THEN conjunct2] b by simp
  show ?thesis
    using a b c d e f by simp
qed

subsection \<open>The two variants of the helper agree\<close>

lemma wait_loop_v2_ready:
  "sizeof_T \<le> Wire_available b \<Longrightarrow> WireHelper_wait_loop_v2 sizeof_T start timeout b = Some (True, b)"
  by (subst WireHelper_wait_loop_v2.simps) simp

lemma wait_loop_v2_timeout:
  assumes "Wire_available b < sizeof_T"
    and "timeout < ucast (clock b (n_millis b + k)) - start"
    and "\<forall>j<k. \<not> timeout < ucast (clock b (n_millis b + j)) - start"
  shows "WireHelper_wait_loop_v2 sizeof_T start timeout b =
           Some (False, Serial_print wait_message (b\<lparr>n_millis := Suc (n_millis b + k)\<rparr>))"
  using assms
proof (induction k arbitrary: b)
  case 0
  then show ?case
    by (subst WireHelper_wait_loop_v2.simps) (simp add: millis_def)
next
  case (Suc k)
  let ?b = "snd (millis b)"
  have a: "Wire_available ?b < sizeof_T"
    using Suc.prems(1) by (simp add: millis_def Wire_available_def)
  have e: "timeout < ucast (clock ?b (n_millis ?b + k)) - start"
    using Suc.prems(2) by (simp add: millis_def)
  have n: "\<forall>j<k. \<not> timeout < ucast (clock ?b (n_millis ?b + j)) - start"
    using Suc.prems(3) by (auto simp add: millis_def)
  have first: "\<not> timeout < ucast (fst (millis b)) - start"
    using Suc.prems(3) by (auto simp add: millis_def)
  have "WireHelper_wait_loop_v2 sizeof_T start timeout b = WireHelper_wait_loop_v2 sizeof_T start timeout ?b"
    using Suc.prems(1) first by (subst WireHelper_wait_loop_v2.simps) simp
  also have "\<dots> = Some (False, Serial_print wait_message (?b\<lparr>n_millis := Suc (n_millis ?b + k)\<rparr>))"
    using a e n by (rule Suc.IH)
  finally show ?case
    by (simp add: millis_def)
qed

lemma wait_loop_v2_spins:
  assumes "WireHelper_wait_loop_v2 sizeof_T start timeout b = Some y"
  shows "\<not> (Wire_available b < sizeof_T
            \<and> (\<forall>k. \<not> timeout < ucast (clock b (n_millis b + k)) - start))"
proof (rule WireHelper_wait_loop_v2.raw_induct
    [where P = "\<lambda>sizeof_T start timeout b y. \<not> (Wire_available b < sizeof_T
            \<and> (\<forall>k. \<not> timeout < ucast (clock b (n_millis b + k)) - start))", OF _ assms])
  fix f sizeof_T start timeout b r
  assume IH: "\<And>sizeof_T start timeout b y. f sizeof_T start timeout b = Some y \<Longrightarrow>
      \<not> (Wire_available b < sizeof_T
            \<and> (\<forall>k. \<not> timeout < ucast (clock b (n_millis b + k)) - start))"
    and step: "(if Wire_available b < sizeof_T
      then if timeout < ucast (fst (millis b)) - start
           then Some (False, Serial_print wait_message (snd (millis b)))
           else f sizeof_T start timeout (snd (millis b))
      else Some (True, b)) = Some r"
  show "\<not> (Wire_available b < sizeof_T
            \<and> (\<forall>k. \<not> timeout < ucast (clock b (n_millis b + k)) - start))"
  proof
    assume c: "Wire_available b < sizeof_T
            \<and> (\<forall>k. \<not> timeout < ucast (clock b (n_millis b + k)) - start)"
    then have "\<not> timeout < ucast (clock b (n_millis b + 0)) - start"
      by blast
    then have "\<not> timeout < ucast (fst (millis b)) - start"
      by (simp add: millis_def)
    with step c have "f sizeof_T start timeout (snd (millis b)) = Some r"
      by simp
    from IH [OF this] have "\<not> (Wire_available (snd (millis b)) < sizeof_T
            \<and> (\<forall>k. \<not> timeout < ucast (clock (snd (millis b)) (n_millis (snd (millis b)) + k)) - start))" .
    moreover have "Wire_available (snd (millis b)) < sizeof_T"
      using c by (simp add: millis_def Wire_available_def)
    moreover have "\<forall>k. \<not> timeout < ucast (clock (snd (millis b)) (n_millis (snd (millis b)) + k)) - start"
    proof
      fix k
      from c have "\<not> timeout < ucast (clock b (n_millis b + Suc k)) - start"
        by blast
      then show "\<not> timeout < ucast (clock (snd (millis b)) (n_millis (snd (millis b)) + k)) - start"
        by (simp add: millis_def)
    qed
    ultimately show False
      by blast
  qed
qed

lemma wait_loop_v2_eq:
  "WireHelper_wait_loop_v2 sizeof_T start timeout b =
     map_option (\<lambda>w. (\<not> fst w, snd w)) (WireHelper_wait_loop sizeof_T start timeout b)"
proof (cases "Wire_available b < sizeof_T")
  case False
  then show ?thesis
    by (simp add: wait_loop_ready wait_loop_v2_ready)
next
  case True
  let ?E = "\<lambda>k. timeout < ucast (clock b (n_millis b + k)) - start"
  show ?thesis
  proof (cases "\<exists>k. ?E k")
    case True
    then have l: "?E (LEAST k. ?E k)"
      by (rule LeastI_ex)
    have n: "\<forall>j<(LEAST k. ?E k). \<not> ?E j"
      using not_less_Least by blast
    show ?thesis
      by (simp add: wait_loop_timeout [OF \<open>Wire_available b < sizeof_T\<close> l n]
          wait_loop_v2_timeout [OF \<open>Wire_available b < sizeof_T\<close> l n])
  next
    case False
    then have never: "\<forall>k. \<not> ?E k"
      by simp
    have "WireHelper_wait_loop_v2 sizeof_T start timeout b = None"
    proof (cases "WireHelper_wait_loop_v2 sizeof_T start timeout b")
      case None
      then show ?thesis .
    next
      case (Some y)
      from wait_loop_v2_spins [OF this] True never show ?thesis
        by simp
    qed
    then show ?thesis
      by (simp add: wait_loop_never [OF True never])
  qed
qed

lemma WireHelper_read_v2_eq:
  "WireHelper_read_v2 sizeof_T data count timeout b = WireHelper_read sizeof_T data count timeout b"
  by (simp add: WireHelper_read_v2_def WireHelper_read_def WireHelper_wait_v2_def WireHelper_wait_def
      wait_loop_v2_eq Let_def split: option.splits)

subsection \<open>Pulling the header\<close>

lemma request_header_eq:
  "request_header m b =
     b\<lparr>rx := replies b (n_req b),
       sent := sent b @ [Delay (m_wait_delay m), RequestFrom LICD_LISTENER_ADDRESS sizeof_LicDeviceHeader,
                         Delay (m_wait_delay m)],
       n_req := Suc (n_req b)\<rparr>"
  by (simp add: request_header_def delay_def Wire_requestFrom_def)

lemma respond_retry:
  "respond LICD_LISTENER_ADDRESS b =
     b\<lparr>sent := sent b @ [BeginTransmission LICD_LISTENER_ADDRESS, Write LICD_COMMAND_RETRY, EndTransmission],
       n_end := Suc (n_end b)\<rparr>"
  by (simp add: respond_def Wire_beginTransmission_def Wire_write_def Wire_endTransmission_def Let_def)


lemma length_header_bytes: "length (header_bytes h) = sizeof_LicDeviceHeader"
  by (simp add: header_bytes_def u32_bytes_def sizeof_LicDeviceHeader_def)

lemma pull_failed_short:
  assumes "WireHelper_read sizeof_LicDeviceHeader (header_bytes LicDeviceHeader_new) 1 150 b = Some (False, data, b')"
  shows "Wire_available b < sizeof_LicDeviceHeader"
proof (rule ccontr)
  assume "\<not> Wire_available b < sizeof_LicDeviceHeader"
  then have "sizeof_LicDeviceHeader \<le> Wire_available b" by simp
  from read_ready [OF this length_header_bytes, of LicDeviceHeader_new 150] assms show False
    by simp
qed

lemma RegisterDevice_pull_failed:
  assumes "WireHelper_read sizeof_LicDeviceHeader (header_bytes LicDeviceHeader_new) 1 150
             (request_header m b) = Some (False, data, b')"
  shows "RegisterDevice m b = Some (LICD_LISTENER_ADDRESS, m, Serial_print read_message b')"
  using assms by (simp add: RegisterDevice_def Let_def)

lemma RegisterDevice_pulled:
  assumes "WireHelper_read sizeof_LicDeviceHeader (header_bytes LicDeviceHeader_new) 1 150
             (request_header m b) = Some (True, data, b')"
  shows "RegisterDevice m b =
           (case RegisterDevice_loop (header_of_bytes data) m LICD_LISTENER_ADDRESS 0 of
              None \<Rightarrow> None | Some a \<Rightarrow> Some (fst a, snd a, b'))"
  using assms by (simp add: RegisterDevice_def Let_def split: option.splits)

lemma pull_ready:
  assumes "sizeof_LicDeviceHeader \<le> length (replies b (n_req b))"
  shows "WireHelper_read sizeof_LicDeviceHeader (header_bytes LicDeviceHeader_new) 1 150
             (request_header m b) =
         Some (True, take sizeof_LicDeviceHeader (replies b (n_req b)),
               (snd (millis (request_header m b)))\<lparr>rx := drop sizeof_LicDeviceHeader (replies b (n_req b))\<rparr>)"
proof -
  have "sizeof_LicDeviceHeader \<le> Wire_available (request_header m b)"
    using assms by (simp add: request_header_eq Wire_available_def)
  from read_ready [OF this length_header_bytes, of LicDeviceHeader_new 150] show ?thesis
    by (simp add: request_header_eq)
qed

lemma zero_lt_count: "(0 :: u8) < LICD_DEVICE_COUNT"
  by (simp add: LICD_DEVICE_COUNT_def)

lemma RegisterDevice_occupied:
  assumes "sizeof_LicDeviceHeader \<le> length (replies b (n_req b))" and "0 < uuid (m_devices m ! 0)"
  shows "RegisterDevice m b = None"
proof -
  have "RegisterDevice_loop h m LICD_LISTENER_ADDRESS 0 = None" for h
    using assms(2) by (intro RegisterDevice_loop_occupied zero_lt_count) simp
  then show ?thesis
    by (simp add: RegisterDevice_pulled [OF pull_ready [OF assms(1)]])
qed


lemma PollDevice_occupied:
  assumes "fst (DoPollDevice m b)"
    and "sizeof_LicDeviceHeader \<le> length (replies b (n_req b))"
    and "0 < uuid (m_devices m ! 0)"
  shows "PollDevice m b = None"
proof -
  have "sizeof_LicDeviceHeader \<le> length (replies (snd (DoPollDevice m b)) (n_req (snd (DoPollDevice m b))))"
    using assms(2) by (simp add: DoPollDevice_fields)
  from RegisterDevice_occupied [OF this assms(3)] assms(1) show ?thesis
    by (simp add: PollDevice_def Let_def)
qed

text \<open>Claim C7, amended. \<^verbatim>\<open>WireHelper::read\<close> for one eight-byte record with a timeout
  of 150 ms returns true exactly when at least eight bytes are in the receive buffer: it
  then copies the first eight and leaves any further byte unread. With fewer than eight
  bytes it returns false, the record untouched, once a reading of the clock is more than
  150 ms after the start, and never returns when no reading is.\<close>

theorem WireHelper_read_header:
  assumes "length data = sizeof_LicDeviceHeader"
  shows "((\<exists>d b'. WireHelper_read sizeof_LicDeviceHeader data 1 150 b = Some (True, d, b'))
            \<longleftrightarrow> sizeof_LicDeviceHeader \<le> Wire_available b)
       \<and> (sizeof_LicDeviceHeader \<le> Wire_available b \<longrightarrow>
            WireHelper_read sizeof_LicDeviceHeader data 1 150 b =
              Some (True, take sizeof_LicDeviceHeader (rx b),
                    (snd (millis b))\<lparr>rx := drop sizeof_LicDeviceHeader (rx b)\<rparr>))
       \<and> (Wire_available b < sizeof_LicDeviceHeader
            \<and> 150 < ucast (clock b (Suc (n_millis b) + k)) - (ucast (clock b (n_millis b)) :: u64) \<longrightarrow>
            (\<exists>b'. WireHelper_read sizeof_LicDeviceHeader data 1 150 b = Some (False, data, b')))
       \<and> (Wire_available b < sizeof_LicDeviceHeader
            \<and> (\<forall>k. \<not> 150 < ucast (clock b (Suc (n_millis b) + k)) - (ucast (clock b (n_millis b)) :: u64)) \<longrightarrow>
            WireHelper_read sizeof_LicDeviceHeader data 1 150 b = None)"
proof (intro conjI impI)
  show "(\<exists>d b'. WireHelper_read sizeof_LicDeviceHeader data 1 150 b = Some (True, d, b'))
            \<longleftrightarrow> sizeof_LicDeviceHeader \<le> Wire_available b"
  proof
    assume "\<exists>d b'. WireHelper_read sizeof_LicDeviceHeader data 1 150 b = Some (True, d, b')"
    then obtain d b' where r: "WireHelper_read sizeof_LicDeviceHeader data 1 150 b = Some (True, d, b')"
      by blast
    show "sizeof_LicDeviceHeader \<le> Wire_available b"
    proof (rule ccontr)
      assume "\<not> sizeof_LicDeviceHeader \<le> Wire_available b"
      then have "Wire_available b < sizeof_LicDeviceHeader"
        by simp
      from read_short [OF this r] show False
        by simp
    qed
  next
    assume "sizeof_LicDeviceHeader \<le> Wire_available b"
    from read_ready [OF this assms, of 150]
    show "\<exists>d b'. WireHelper_read sizeof_LicDeviceHeader data 1 150 b = Some (True, d, b')"
      by blast
  qed
next
  assume "sizeof_LicDeviceHeader \<le> Wire_available b"
  then show "WireHelper_read sizeof_LicDeviceHeader data 1 150 b =
              Some (True, take sizeof_LicDeviceHeader (rx b),
                    (snd (millis b))\<lparr>rx := drop sizeof_LicDeviceHeader (rx b)\<rparr>)"
    using assms by (rule read_ready)
next
  assume "Wire_available b < sizeof_LicDeviceHeader
            \<and> 150 < ucast (clock b (Suc (n_millis b) + k)) - (ucast (clock b (n_millis b)) :: u64)"
  then show "\<exists>b'. WireHelper_read sizeof_LicDeviceHeader data 1 150 b = Some (False, data, b')"
    by (intro read_timeout [where k = k]) simp_all
next
  assume a: "Wire_available b < sizeof_LicDeviceHeader
            \<and> (\<forall>k. \<not> 150 < ucast (clock b (Suc (n_millis b) + k)) - (ucast (clock b (n_millis b)) :: u64))"
  then have "WireHelper_wait sizeof_LicDeviceHeader 150 b = None"
    by (intro wait_never) simp_all
  then show "WireHelper_read sizeof_LicDeviceHeader data 1 150 b = None"
    by (simp add: WireHelper_read_def)
qed

theorem WireHelper_read_header_witness:
  "length (header_bytes LicDeviceHeader_new) = sizeof_LicDeviceHeader
   \<and> sizeof_LicDeviceHeader \<le> Wire_available board_nine_bytes
   \<and> WireHelper_read sizeof_LicDeviceHeader (header_bytes LicDeviceHeader_new) 1 150 board_nine_bytes =
       Some (True, [1, 2, 3, 4, 5, 6, 7, 8], (snd (millis board_nine_bytes))\<lparr>rx := [9]\<rparr>)
   \<and> Wire_available (request_header manager_default board_five_bytes) < sizeof_LicDeviceHeader
   \<and> 150 < ucast (clock (request_header manager_default board_five_bytes)
                 (Suc (n_millis (request_header manager_default board_five_bytes)) + 1))
           - (ucast (clock (request_header manager_default board_five_bytes)
                 (n_millis (request_header manager_default board_five_bytes))) :: u64)
   \<and> map_option fst (WireHelper_read sizeof_LicDeviceHeader (header_bytes LicDeviceHeader_new) 1 150
         (request_header manager_default board_five_bytes)) = Some False
   \<and> Wire_available board_stopped_clock < sizeof_LicDeviceHeader
   \<and> WireHelper_read sizeof_LicDeviceHeader (header_bytes LicDeviceHeader_new) 1 150
         board_stopped_clock = None"
proof -
  have len: "length (header_bytes LicDeviceHeader_new) = sizeof_LicDeviceHeader"
    by (rule length_header_bytes)
  have nine: "sizeof_LicDeviceHeader \<le> Wire_available board_nine_bytes"
    by code_simp
  have rx9: "rx board_nine_bytes = [1, 2, 3, 4, 5, 6, 7, 8, 9]"
    by (simp add: board_nine_bytes_def)
  have five: "Wire_available (request_header manager_default board_five_bytes) < sizeof_LicDeviceHeader"
    by code_simp
  have late: "150 < ucast (clock (request_header manager_default board_five_bytes)
                 (Suc (n_millis (request_header manager_default board_five_bytes)) + 1))
           - (ucast (clock (request_header manager_default board_five_bytes)
                 (n_millis (request_header manager_default board_five_bytes))) :: u64)"
    by code_simp
  have short: "Wire_available board_stopped_clock < sizeof_LicDeviceHeader"
    by code_simp
  have still: "\<forall>k. \<not> 150 < ucast (clock board_stopped_clock (Suc (n_millis board_stopped_clock) + k))
           - (ucast (clock board_stopped_clock (n_millis board_stopped_clock)) :: u64)"
    by (simp add: board_stopped_clock_def board_init_def clock_stopped_def)
  note t9 = WireHelper_read_header [OF len, of board_nine_bytes]
  note t5 = WireHelper_read_header [OF len, of "request_header manager_default board_five_bytes" 1]
  note t0 = WireHelper_read_header [OF len, of board_stopped_clock]
  have a: "WireHelper_read sizeof_LicDeviceHeader (header_bytes LicDeviceHeader_new) 1 150 board_nine_bytes =
       Some (True, [1, 2, 3, 4, 5, 6, 7, 8], (snd (millis board_nine_bytes))\<lparr>rx := [9]\<rparr>)"
    using t9 [THEN conjunct2, THEN conjunct1] nine by (simp add: rx9 sizeof_LicDeviceHeader_def)
  have "\<exists>b'. WireHelper_read sizeof_LicDeviceHeader (header_bytes LicDeviceHeader_new) 1 150
         (request_header manager_default board_five_bytes) = Some (False, header_bytes LicDeviceHeader_new, b')"
    using t5 [THEN conjunct2, THEN conjunct2, THEN conjunct1] five late by blast
  then have b: "map_option fst (WireHelper_read sizeof_LicDeviceHeader (header_bytes LicDeviceHeader_new) 1 150
         (request_header manager_default board_five_bytes)) = Some False"
    by auto
  have c: "WireHelper_read sizeof_LicDeviceHeader (header_bytes LicDeviceHeader_new) 1 150
         board_stopped_clock = None"
    using t0 [THEN conjunct2, THEN conjunct2, THEN conjunct2] short still by blast
  show ?thesis
    using len nine a five late b short c by blast
qed

text \<open>Against the claim as worded: nine bytes are more than the eight expected, and the
  read returns true.\<close>

theorem WireHelper_read_header_counterexample:
  "Wire_available board_nine_bytes = 9
   \<and> map_option fst (WireHelper_read sizeof_LicDeviceHeader (header_bytes LicDeviceHeader_new) 1 150
         board_nine_bytes) = Some True"
  by code_simp

subsection \<open>The polling cycle\<close>

text \<open>Claim C1, amended. When the probe succeeds and the pull of the header fails,
  \<^verbatim>\<open>PollDevice\<close> returns with the registry as it was, and after the request for the
  header the master sends one more transaction to the listener address: the RETRY command,
  with no ASSIGN.\<close>

theorem PollDevice_pull_failed:
  assumes "fst (DoPollDevice m b)"
    and "WireHelper_read sizeof_LicDeviceHeader (header_bytes LicDeviceHeader_new) 1 150
           (request_header m (snd (DoPollDevice m b))) = Some (False, data, b')"
  shows "PollDevice m b = Some (m, respond LICD_LISTENER_ADDRESS (Serial_print read_message b'))
       \<and> sent (respond LICD_LISTENER_ADDRESS (Serial_print read_message b')) =
           sent (snd (DoPollDevice m b)) @
             [Delay (m_wait_delay m), RequestFrom LICD_LISTENER_ADDRESS sizeof_LicDeviceHeader,
              Delay (m_wait_delay m),
              BeginTransmission LICD_LISTENER_ADDRESS, Write LICD_COMMAND_RETRY, EndTransmission]"
proof
  show "PollDevice m b = Some (m, respond LICD_LISTENER_ADDRESS (Serial_print read_message b'))"
    using assms(1) RegisterDevice_pull_failed [OF assms(2)] by (simp add: PollDevice_def Let_def)
next
  let ?b = "request_header m (snd (DoPollDevice m b))"
  have "Wire_available ?b < sizeof_LicDeviceHeader"
    using assms(2) by (rule pull_failed_short)
  from read_short [OF this assms(2)] have "sent b' = sent ?b"
    by simp
  then show "sent (respond LICD_LISTENER_ADDRESS (Serial_print read_message b')) =
           sent (snd (DoPollDevice m b)) @
             [Delay (m_wait_delay m), RequestFrom LICD_LISTENER_ADDRESS sizeof_LicDeviceHeader,
              Delay (m_wait_delay m),
              BeginTransmission LICD_LISTENER_ADDRESS, Write LICD_COMMAND_RETRY, EndTransmission]"
    by (simp add: respond_retry Serial_print_def request_header_eq)
qed

theorem PollDevice_pull_failed_witness:
  "fst (DoPollDevice manager_default board_five_bytes)
   \<and> map_option fst (WireHelper_read sizeof_LicDeviceHeader (header_bytes LicDeviceHeader_new) 1 150
         (request_header manager_default (snd (DoPollDevice manager_default board_five_bytes))))
       = Some False
   \<and> map_option fst (PollDevice manager_default board_five_bytes) = Some manager_default"
proof -
  let ?b = "request_header manager_default (snd (DoPollDevice manager_default board_five_bytes))"
  have p: "fst (DoPollDevice manager_default board_five_bytes)"
    by code_simp
  have five: "Wire_available ?b < sizeof_LicDeviceHeader"
    by code_simp
  have late: "150 < ucast (clock ?b (Suc (n_millis ?b) + 1)) - (ucast (clock ?b (n_millis ?b)) :: u64)"
    by code_simp
  from read_timeout [OF five _ late, of 1 "header_bytes LicDeviceHeader_new"]
  obtain b' where r: "WireHelper_read sizeof_LicDeviceHeader (header_bytes LicDeviceHeader_new) 1 150 ?b
      = Some (False, header_bytes LicDeviceHeader_new, b')"
    by auto
  from PollDevice_pull_failed [OF p r] p r show ?thesis
    by simp
qed

text \<open>Against the claim as worded: the probe succeeds at the third attempt, five of the
  eight bytes arrive, the read times out, and the trace ends with the RETRY command.\<close>

theorem PollDevice_pull_failed_counterexample:
  "fst (DoPollDevice manager_default board_five_bytes)
   \<and> map_option fst (WireHelper_read sizeof_LicDeviceHeader (header_bytes LicDeviceHeader_new) 1 150
         (request_header manager_default (snd (DoPollDevice manager_default board_five_bytes))))
       = Some False
   \<and> \<not> Option.is_none (PollDevice manager_default board_five_bytes)
   \<and> sent (snd (the (PollDevice manager_default board_five_bytes))) =
       [BeginTransmission 1, Write 1, EndTransmission, Delay 30,
        BeginTransmission 1, Write 1, EndTransmission, Delay 30,
        BeginTransmission 1, Write 1, EndTransmission, Delay 30,
        Delay 15, RequestFrom 1 8, Delay 15,
        BeginTransmission 1, Write LICD_COMMAND_RETRY, EndTransmission]"
  by code_simp

text \<open>Claim C2. Two registries with a free slot, and a slave that delivers its eight
  bytes. First the registry that scenario 1 leaves behind: slot 0 occupied, slot 1 the
  smallest free slot. Then the registry whose free slots are 2, 5 and 9. In both the pull
  succeeds and \<^verbatim>\<open>RegisterDevice\<close> does not return: the free slot is never reached.\<close>

theorem RegisterDevice_never_reaches_free_slot:
  "map_option (\<lambda>r. m_devices (fst r)) (PollDevice manager_default board_one_slave)
     = Some registry_one_device
   \<and> occupied (registry_one_device ! 0) \<and> \<not> occupied (registry_one_device ! 1)
   \<and> map_option fst (WireHelper_read sizeof_LicDeviceHeader (header_bytes LicDeviceHeader_new) 1 150
         (request_header (manager_with registry_one_device) board_one_slave)) = Some True
   \<and> RegisterDevice (manager_with registry_one_device) board_one_slave = None
   \<and> occupied (registry_free_2_5_9 ! 0) \<and> occupied (registry_free_2_5_9 ! 1)
   \<and> \<not> occupied (registry_free_2_5_9 ! 2)
   \<and> map_option fst (WireHelper_read sizeof_LicDeviceHeader (header_bytes LicDeviceHeader_new) 1 150
         (request_header (manager_with registry_free_2_5_9) board_one_slave)) = Some True
   \<and> RegisterDevice (manager_with registry_free_2_5_9) board_one_slave = None
   \<and> PollDevice (manager_with registry_free_2_5_9) board_one_slave = None"
proof -
  have reach: "map_option (\<lambda>r. m_devices (fst r)) (PollDevice manager_default board_one_slave)
     = Some registry_one_device"
    by code_simp
  have o1: "occupied (registry_one_device ! 0)" "\<not> occupied (registry_one_device ! 1)"
    by code_simp+
  have o: "occupied (registry_free_2_5_9 ! 0)" "occupied (registry_free_2_5_9 ! 1)"
    "\<not> occupied (registry_free_2_5_9 ! 2)"
    by code_simp+
  have r: "sizeof_LicDeviceHeader \<le> length (replies board_one_slave (n_req board_one_slave))"
    by code_simp
  have z1: "0 < uuid (m_devices (manager_with registry_one_device) ! 0)"
    by code_simp
  have z: "0 < uuid (m_devices (manager_with registry_free_2_5_9) ! 0)"
    by code_simp
  have p: "fst (DoPollDevice (manager_with registry_free_2_5_9) board_one_slave)"
    by code_simp
  have pull1: "map_option fst (WireHelper_read sizeof_LicDeviceHeader (header_bytes LicDeviceHeader_new) 1 150
         (request_header (manager_with registry_one_device) board_one_slave)) = Some True"
    by (simp add: pull_ready [OF r])
  have none1: "RegisterDevice (manager_with registry_one_device) board_one_slave = None"
    using r z1 by (rule RegisterDevice_occupied)
  have pull: "map_option fst (WireHelper_read sizeof_LicDeviceHeader (header_bytes LicDeviceHeader_new) 1 150
         (request_header (manager_with registry_free_2_5_9) board_one_slave)) = Some True"
    by (simp add: pull_ready [OF r])
  have none: "RegisterDevice (manager_with registry_free_2_5_9) board_one_slave = None"
    using r z by (rule RegisterDevice_occupied)
  have poll: "PollDevice (manager_with registry_free_2_5_9) board_one_slave = None"
    using p r z by (rule PollDevice_occupied)
  show ?thesis
    using reach o1 pull1 none1 o pull none poll by blast
qed

text \<open>Claim C3. Whenever the probe succeeds, the eight bytes of a header arrive and slot 0
  of the 126-slot registry is occupied, \<^verbatim>\<open>PollDevice\<close> does not return.\<close>

theorem PollDevice_never_returns:
  assumes "length (m_devices m) = unat LICD_DEVICE_COUNT"
    and "fst (DoPollDevice m b)"
    and "sizeof_LicDeviceHeader \<le> length (replies b (n_req b))"
    and "occupied (m_devices m ! 0)"
  shows "PollDevice m b = None"
  using assms(2-4) by (intro PollDevice_occupied) (simp_all add: occupied_def)

theorem PollDevice_never_returns_witness:
  "length (m_devices (manager_with registry_one_device)) = unat LICD_DEVICE_COUNT
   \<and> fst (DoPollDevice (manager_with registry_one_device) board_one_slave)
   \<and> sizeof_LicDeviceHeader \<le> length (replies board_one_slave (n_req board_one_slave))
   \<and> occupied (m_devices (manager_with registry_one_device) ! 0)
   \<and> PollDevice (manager_with registry_one_device) board_one_slave = None"
proof -
  have l: "length (m_devices (manager_with registry_one_device)) = unat LICD_DEVICE_COUNT"
    by code_simp
  have p: "fst (DoPollDevice (manager_with registry_one_device) board_one_slave)"
    by code_simp
  have r: "sizeof_LicDeviceHeader \<le> length (replies board_one_slave (n_req board_one_slave))"
    by code_simp
  have z: "occupied (m_devices (manager_with registry_one_device) ! 0)"
    by code_simp
  from PollDevice_never_returns [OF l p r z] l p r z show ?thesis
    by simp
qed





subsection \<open>What a registry can look like\<close>

text \<open>A call of \<^verbatim>\<open>PollDevice\<close> that returns has written at most slot 0, so in every
  manager a program can hold the slots 1 to 125 are as the constructor left them, and the
  registry is never full.\<close>

lemma RegisterDevice_loop_result:
  assumes "RegisterDevice_loop h m LICD_LISTENER_ADDRESS 0 = Some y"
  shows "y = (LICD_ADDRESS_SPACE, m\<lparr>m_devices := (m_devices m)[0 := h]\<rparr>)"
proof -
  from RegisterDevice_loop_spins [OF assms] have free: "uuid (m_devices m ! unat (0 :: u8)) = 0"
    using zero_lt_count by (simp add: word_neq_0_conv [symmetric])
  from RegisterDevice_loop_free [OF zero_lt_count free, of h] assms show ?thesis
    by simp
qed

lemma RegisterDevice_devices:
  assumes "RegisterDevice m b = Some (a, m', b')"
  shows "m' = m \<or> (\<exists>h. m' = m\<lparr>m_devices := (m_devices m)[0 := h]\<rparr>)"
proof -
  let ?r = "WireHelper_read sizeof_LicDeviceHeader (header_bytes LicDeviceHeader_new) 1 150
              (request_header m b)"
  from assms obtain r where r: "?r = Some r"
    by (auto simp add: RegisterDevice_def Let_def split: option.splits)
  show ?thesis
  proof (cases "fst r")
    case False
    with assms r show ?thesis
      by (simp add: RegisterDevice_def Let_def)
  next
    case True
    with assms r obtain y where
      y: "RegisterDevice_loop (header_of_bytes (fst (snd r))) m LICD_LISTENER_ADDRESS 0 = Some y"
      and m': "m' = snd y"
      by (auto simp add: RegisterDevice_def Let_def split: option.splits)
    from RegisterDevice_loop_result [OF y] m' show ?thesis
      by auto
  qed
qed

lemma PollDevice_devices:
  assumes "PollDevice m b = Some (m', b')"
  shows "m' = m \<or> (\<exists>h. m' = m\<lparr>m_devices := (m_devices m)[0 := h]\<rparr>)"
proof (cases "fst (DoPollDevice m b)")
  case False
  with assms show ?thesis
    by (simp add: PollDevice_def Let_def)
next
  case True
  with assms obtain r where r: "RegisterDevice m (snd (DoPollDevice m b)) = Some r" and m': "m' = fst (snd r)"
    by (auto simp add: PollDevice_def Let_def split: option.splits)
  from RegisterDevice_devices [of m "snd (DoPollDevice m b)" "fst r" "fst (snd r)" "snd (snd r)"] r m'
  show ?thesis
    by simp
qed

lemma reachable_slots_free:
  assumes "reachable m"
  shows "length (m_devices m) = unat LICD_DEVICE_COUNT
       \<and> (\<forall>i. 0 < i \<and> i < unat LICD_DEVICE_COUNT \<longrightarrow> m_devices m ! i = LicDeviceHeader_new)"
  using assms
proof (induction rule: reachable.induct)
  case (constructed retry_count retry_delay wait_delay b)
  show ?case
    by (simp add: LicDeviceManager_new_def)
next
  case (polled m b m' b')
  from PollDevice_devices [OF polled.hyps(2)] polled.IH show ?case
    by auto
qed

lemma reachable_never_full:
  assumes "reachable m"
  shows "\<not> list_all occupied (m_devices m)"
proof -
  from reachable_slots_free [OF assms] have l: "length (m_devices m) = unat LICD_DEVICE_COUNT"
    and f: "m_devices m ! 1 = LicDeviceHeader_new"
    by (simp_all add: LICD_DEVICE_COUNT_def)
  have "1 < length (m_devices m)"
    using l by (simp add: LICD_DEVICE_COUNT_def)
  then have "m_devices m ! 1 \<in> set (m_devices m)"
    by (rule nth_mem)
  moreover have "\<not> occupied (m_devices m ! 1)"
    unfolding f occupied_def LicDeviceHeader_new_def by simp
  ultimately have "\<exists>h \<in> set (m_devices m). \<not> occupied h"
    by blast
  then show ?thesis
    by (simp add: list_all_iff)
qed

subsection \<open>Scenario 1 of the specification\<close>

text \<open>An empty registry and one slave with identity \<open>{uuid: 0x1234ABCD, flags: 0}\<close>: the
  first probe succeeds, slot 0 takes the identity, the master sends ASSIGN with 0x02, and
  a slave that handles the two frames ends up valid at address 0x02.\<close>

lemma scenario_first_registration:
  "map_option (\<lambda>r. m_devices (fst r) ! 0) (PollDevice manager_default board_one_slave)
     = Some identity_1234ABCD
   \<and> map_option (\<lambda>r. sent (snd r)) (PollDevice manager_default board_one_slave)
     = Some [BeginTransmission 1, Write 1, EndTransmission, Delay 30,
             Delay 15, RequestFrom 1 8, Delay 15,
             BeginTransmission 1, Write LICD_COMMAND_ASSIGN, Write 0x02, EndTransmission]
   \<and> GetAddress (on_frames [(0x01, [LICD_COMMAND_UUID]), (0x01, [LICD_COMMAND_ASSIGN, 0x02])]
        (LicDevice_new None None)) = 0x02
   \<and> GetIsValid (on_frames [(0x01, [LICD_COMMAND_UUID]), (0x01, [LICD_COMMAND_ASSIGN, 0x02])]
        (LicDevice_new None None))"
  by code_simp

end
